theory Spec2Isabelle
  imports Complex_Main "HOL-Library.Word"
begin

section \<open>Strings of the Go standard library\<close>

text \<open>
  A Go string is a sequence of bytes; \<open>string\<close> (a list of 8-bit characters) is the same
  data. The functions of package \<open>strings\<close> that \<open>gwargs.go\<close> calls are written out below
  on byte lists.
\<close>

definition HasPrefix :: "string \<Rightarrow> string \<Rightarrow> bool" where
  "HasPrefix s pre = (length pre \<le> length s \<and> take (length pre) s = pre)"

definition TrimPrefix :: "string \<Rightarrow> string \<Rightarrow> string" where
  "TrimPrefix s pre = (if HasPrefix s pre then drop (length pre) s else s)"

text \<open>\<open>strings.Index\<close>: the position of the first occurrence of \<open>sub\<close>, if there is one.\<close>

fun Index :: "string \<Rightarrow> string \<Rightarrow> nat option" where
  "Index [] sub = (if sub = [] then Some 0 else None)"
| "Index (c # cs) sub =
     (if HasPrefix (c # cs) sub then Some 0
      else (case Index cs sub of None \<Rightarrow> None | Some i \<Rightarrow> Some (Suc i)))"

definition Contains :: "string \<Rightarrow> string \<Rightarrow> bool" where
  "Contains s sub = (Index s sub \<noteq> None)"

text \<open>
  \<open>strings.SplitN(s, sep, 2)\<close> for a non-empty separator: the text before the first
  separator and everything after it, or \<open>s\<close> alone when there is no separator.
\<close>

definition SplitN2 :: "string \<Rightarrow> string \<Rightarrow> string list" where
  "SplitN2 s sep =
     (case Index s sep of
        None \<Rightarrow> [s]
      | Some m \<Rightarrow> [take m s, drop (m + length sep) s])"

text \<open>
  \<open>strings.Split(s, "")\<close> cuts \<open>s\<close> into its UTF-8 sequences, one string per rune; a
  byte that starts no valid sequence is a piece of its own (older Go releases put the
  encoding of U+FFFD in its place; on valid UTF-8, and so on ASCII, all releases
  agree). \<open>DecodeRuneSize\<close> is the width that \<open>utf8.DecodeRuneInString\<close> reports for
  the first rune of a non-empty string.
\<close>

definition contb :: "nat \<Rightarrow> nat \<Rightarrow> string \<Rightarrow> nat \<Rightarrow> bool" where
  "contb lo hi s i = (i < length s \<and> lo \<le> of_char (s ! i) \<and> of_char (s ! i) \<le> hi)"

definition utf8_seq :: "nat \<Rightarrow> nat \<Rightarrow> nat \<Rightarrow> string \<Rightarrow> nat" where
  "utf8_seq sz lo hi s =
     (if length s < sz then 1
      else if \<not> contb lo hi s 1 then 1
      else if sz \<le> 2 then 2
      else if \<not> contb 128 191 s 2 then 1
      else if sz \<le> 3 then 3
      else if \<not> contb 128 191 s 3 then 1
      else 4)"

definition DecodeRuneSize :: "string \<Rightarrow> nat" where
  "DecodeRuneSize s =
     (case s of
        [] \<Rightarrow> 0
      | c # _ \<Rightarrow>
          (let b = (of_char c :: nat) in
           if b < 128 then 1
           else if b < 194 then 1
           else if b < 224 then utf8_seq 2 128 191 s
           else if b = 224 then utf8_seq 3 160 191 s
           else if b = 237 then utf8_seq 3 128 159 s
           else if b < 240 then utf8_seq 3 128 191 s
           else if b = 240 then utf8_seq 4 144 191 s
           else if b < 244 then utf8_seq 4 128 191 s
           else if b = 244 then utf8_seq 4 128 143 s
           else 1))"

lemma utf8_seq_bounds: "1 \<le> utf8_seq sz lo hi s \<and> utf8_seq sz lo hi s \<le> 4"
  by (simp add: utf8_seq_def)

lemma DecodeRuneSize_pos: "s \<noteq> [] \<Longrightarrow> 1 \<le> DecodeRuneSize s"
  using utf8_seq_bounds by (cases s) (simp_all add: DecodeRuneSize_def Let_def)

function explode :: "string \<Rightarrow> string list" where
  "explode s =
     (if s = [] then []
      else take (DecodeRuneSize s) s # explode (drop (DecodeRuneSize s) s))"
  by pat_completeness auto
termination
proof (relation "measure length")
  show "wf (measure length)" by simp
next
  fix s :: string
  assume "s \<noteq> []"
  then have "1 \<le> DecodeRuneSize s" by (rule DecodeRuneSize_pos)
  with \<open>s \<noteq> []\<close> show "(drop (DecodeRuneSize s) s, s) \<in> measure length"
    by (cases s) simp_all
qed

declare explode.simps [simp del]


text \<open>
  \<open>strings.EqualFold\<close> on ASCII: two bytes match when they are equal or are the upper
  and the lower case of one letter. \<open>Parse\<close> calls it with the literal \<open>true\<close> only, and
  no rune outside ASCII folds to one of the letters t, r, u, e, so Unicode folding adds
  nothing there.
\<close>

definition fold_eq :: "char \<Rightarrow> char \<Rightarrow> bool" where
  "fold_eq a b =
     (let x = (of_char a :: nat); y = (of_char b :: nat);
          lo = min x y; hi = max x y
      in x = y \<or> (65 \<le> lo \<and> lo \<le> 90 \<and> hi = lo + 32))"

fun EqualFold :: "string \<Rightarrow> string \<Rightarrow> bool" where
  "EqualFold [] [] = True"
| "EqualFold (a # s) (b # t) = (fold_eq a b \<and> EqualFold s t)"
| "EqualFold _ _ = False"

section \<open>Errors, kinds and values\<close>

text \<open>The kinds of package \<open>reflect\<close>, in the order of its enumeration.\<close>

datatype kind =
    KInvalid | KBool
  | KInt | KInt8 | KInt16 | KInt32 | KInt64
  | KUint | KUint8 | KUint16 | KUint32 | KUint64 | KUintptr
  | KFloat32 | KFloat64 | KComplex64 | KComplex128
  | KArray | KChan | KFunc | KInterface | KMap | KPointer | KSlice
  | KString | KStruct | KUnsafePointer

text \<open>
  A \<open>float64\<close> is compared with constants only, so the model keeps its mathematical
  value: a finite float is the rational it denotes (both zeros are \<open>Finite 0\<close>).
\<close>

datatype f64 = Finite rat | PosInf | NegInf | NaN

fun f64_gt :: "f64 \<Rightarrow> rat \<Rightarrow> bool" where
  "f64_gt (Finite x) c = (c < x)"
| "f64_gt PosInf c = True"
| "f64_gt NegInf c = False"
| "f64_gt NaN c = False"

fun f64_lt :: "f64 \<Rightarrow> rat \<Rightarrow> bool" where
  "f64_lt (Finite x) c = (x < c)"
| "f64_lt PosInf c = False"
| "f64_lt NegInf c = True"
| "f64_lt NaN c = False"

datatype numerr = ErrSyntax | ErrRange

text \<open>
  The errors \<open>Parse\<close> returns: its own \<open>fmt.Errorf\<close> and \<open>errors.New\<close> values, one
  constructor per message with the values the message prints, and the \<open>*NumError\<close> of
  package \<open>strconv\<close> (function name, offending text, cause).
\<close>

datatype error =
    ErrExpectedPointer kind
  | ErrNilDestination
  | ErrNotStructPointer
  | NumError string string numerr
  | ErrOverflowInt "64 word" kind
  | ErrOverflowUint "64 word" kind
  | ErrOverflowFloat f64 kind
  | ErrUnderflow string kind
  | ErrUnsupported kind string

text \<open>
  Go values as \<open>reflect\<close> sees them. A struct is the list of its fields in declaration
  order; a field has its name, whether it is exported (\<open>reflect\<close> refuses to set a
  field that is not: in Go exactly the fields whose name starts with an upper-case
  letter), and its value. \<open>VPtr None\<close> is a nil pointer, \<open>VInvalid\<close> is the zero
  \<open>reflect.Value\<close> that \<open>reflect.ValueOf(nil)\<close> returns, and \<open>VOther k\<close> stands for a
  value of one of the kinds that carry nothing the program reads. \<open>int\<close> and \<open>uint\<close> are
  64 bits wide, as on every 64-bit platform.
\<close>

datatype opaque =
    OUintptr | OComplex64 | OComplex128 | OArray | OChan | OFunc | OInterface | OMap
  | OSlice | OUnsafePointer

datatype gval =
    VInvalid
  | VBool bool
  | VInt "64 word" | VInt8 "8 word" | VInt16 "16 word" | VInt32 "32 word" | VInt64 "64 word"
  | VUint "64 word" | VUint8 "8 word" | VUint16 "16 word" | VUint32 "32 word"
  | VUint64 "64 word"
  | VFloat32 f64 | VFloat64 f64
  | VString string
  | VPtr "gval option"
  | VStruct "field list"
  | VOther opaque
and field = StructField (fname: string) (exported: bool) (fval: gval)

fun opaque_kind :: "opaque \<Rightarrow> kind" where
  "opaque_kind OUintptr = KUintptr"
| "opaque_kind OComplex64 = KComplex64"
| "opaque_kind OComplex128 = KComplex128"
| "opaque_kind OArray = KArray"
| "opaque_kind OChan = KChan"
| "opaque_kind OFunc = KFunc"
| "opaque_kind OInterface = KInterface"
| "opaque_kind OMap = KMap"
| "opaque_kind OSlice = KSlice"
| "opaque_kind OUnsafePointer = KUnsafePointer"

fun Kind :: "gval \<Rightarrow> kind" where
  "Kind VInvalid = KInvalid"
| "Kind (VBool _) = KBool"
| "Kind (VInt _) = KInt"
| "Kind (VInt8 _) = KInt8"
| "Kind (VInt16 _) = KInt16"
| "Kind (VInt32 _) = KInt32"
| "Kind (VInt64 _) = KInt64"
| "Kind (VUint _) = KUint"
| "Kind (VUint8 _) = KUint8"
| "Kind (VUint16 _) = KUint16"
| "Kind (VUint32 _) = KUint32"
| "Kind (VUint64 _) = KUint64"
| "Kind (VFloat32 _) = KFloat32"
| "Kind (VFloat64 _) = KFloat64"
| "Kind (VString _) = KString"
| "Kind (VPtr _) = KPointer"
| "Kind (VStruct _) = KStruct"
| "Kind (VOther k) = opaque_kind k"

fun IsNil :: "gval \<Rightarrow> bool" where
  "IsNil (VPtr None) = True"
| "IsNil _ = False"

fun Elem :: "gval \<Rightarrow> gval" where
  "Elem (VPtr (Some v)) = v"
| "Elem _ = VInvalid"

fun struct_fields :: "gval \<Rightarrow> field list" where
  "struct_fields (VStruct fs) = fs"
| "struct_fields _ = []"

text \<open>
  A run-time panic of the Go program is a value of the model. \<open>IndexOutOfRange i n\<close> is
  the fault of indexing a slice of length \<open>n\<close> at \<open>i\<close>; \<open>SliceBounds\<close> is the fault of
  \<open>os.Args[1:]\<close> on an empty \<open>os.Args\<close>; \<open>UnexportedField m\<close> is the panic of the
  \<open>reflect\<close> setter \<open>m\<close> on a field that is not exported, and \<open>ValueError m k\<close> its
  panic on a value of the wrong kind \<open>k\<close>.
\<close>

datatype panic =
    IndexOutOfRange nat nat
  | SliceBounds
  | UnexportedField string
  | ValueError string kind

section \<open>The tokenizer: \<open>mapArgSlice\<close>\<close>

type_synonym flagmap = "string \<rightharpoonup> string"

text \<open>\<open>m[k]\<close> of a Go map: the zero value (the empty string) for a missing key.\<close>

definition at_key :: "flagmap \<Rightarrow> string \<Rightarrow> string" where
  "at_key m k = (case m k of None \<Rightarrow> [] | Some v \<Rightarrow> v)"

text \<open>The inner loop over a short-flag cluster: every piece becomes a key bound to \<open>""\<close>.\<close>

fun set_flags :: "string list \<Rightarrow> flagmap \<Rightarrow> flagmap" where
  "set_flags [] res = res"
| "set_flags (flag # flags) res = set_flags flags (res(flag \<mapsto> []))"

text \<open>
  The loop of \<open>mapArgSlice\<close>, with its index \<open>i\<close> and its result map \<open>res\<close> as
  arguments. The lookahead \<open>args[i+1]\<close> is not guarded in the source: past the end of
  the slice it panics, and so does the model.
\<close>

function mapArgSlice_loop :: "string list \<Rightarrow> nat \<Rightarrow> flagmap \<Rightarrow> panic + flagmap" where
  "mapArgSlice_loop args i res =
     (if i < length args then
        (let arg = args ! i in
         if HasPrefix arg ''--'' then
           (let arg = TrimPrefix arg ''--'' in
            if Contains arg ''='' then
              (let parts = SplitN2 arg ''='' in
               if length parts < 2 then Inl (IndexOutOfRange 1 (length parts))
               else mapArgSlice_loop args (i + 1) (res(parts ! 0 \<mapsto> parts ! 1)))
            else if length args \<le> i + 1 then Inl (IndexOutOfRange (i + 1) (length args))
            else
              (let next = args ! (i + 1) in
               if HasPrefix next ''-'' then mapArgSlice_loop args (i + 1) (res(arg \<mapsto> []))
               else mapArgSlice_loop args (i + 1 + 1) (res(arg \<mapsto> next))))
         else if HasPrefix arg ''-'' then
           mapArgSlice_loop args (i + 1) (set_flags (explode (drop 1 arg)) res)
         else mapArgSlice_loop args (i + 1) (res(arg \<mapsto> [])))
      else Inr res)"
  by pat_completeness auto
termination
  by (relation "measure (\<lambda>(args, i, res). length args - i)") auto

declare mapArgSlice_loop.simps [simp del]

definition mapArgSlice :: "string list \<Rightarrow> panic + flagmap" where
  "mapArgSlice args = mapArgSlice_loop args 0 Map.empty"


section \<open>Number parsing of package \<open>strconv\<close>\<close>

text \<open>
  \<open>strconv.ParseUint(s, 10, 64)\<close>. In base 10 only the bytes 0 to 9 are digits (a
  letter is a digit of value ten or more, refused like any other byte). The loop returns
  as soon as a byte is refused or the number leaves 64 bits, with the value and the cause
  that Go returns.
\<close>

definition is_digit :: "char \<Rightarrow> bool" where
  "is_digit c = (48 \<le> (of_char c :: nat) \<and> (of_char c :: nat) \<le> 57)"

fun ParseUint_loop :: "64 word \<Rightarrow> string \<Rightarrow> 64 word \<times> numerr option" where
  "ParseUint_loop n [] = (n, None)"
| "ParseUint_loop n (c # cs) =
     (if \<not> is_digit c then (0, Some ErrSyntax)
      else
        (let d = (of_nat (of_char c - 48) :: 64 word) in
         if 1844674407370955162 \<le> n then (18446744073709551615, Some ErrRange)
         else
           (let n10 = n * 10; n1 = n10 + d in
            if n1 < n10 \<or> 18446744073709551615 < n1
            then (18446744073709551615, Some ErrRange)
            else ParseUint_loop n1 cs)))"

definition ParseUint_raw :: "string \<Rightarrow> 64 word \<times> numerr option" where
  "ParseUint_raw s = (if s = [] then (0, Some ErrSyntax) else ParseUint_loop 0 s)"

definition ParseUint :: "string \<Rightarrow> error + 64 word" where
  "ParseUint s =
     (case ParseUint_raw s of
        (n, None) \<Rightarrow> Inr n
      | (n, Some e) \<Rightarrow> Inl (NumError ''ParseUint'' s e))"

text \<open>
  \<open>strconv.ParseInt(s, 10, 64)\<close>: an optional sign, then \<open>ParseUint\<close> on the rest, then
  the check against \<open>2^63\<close>.
\<close>

definition ParseInt :: "string \<Rightarrow> error + 64 word" where
  "ParseInt s0 =
     (if s0 = [] then Inl (NumError ''ParseInt'' s0 ErrSyntax)
      else
        (let neg = (hd s0 = CHR ''-'');
             s = (if hd s0 = CHR ''+'' \<or> hd s0 = CHR ''-'' then tl s0 else s0);
             (un, err) = ParseUint_raw s
         in if err = Some ErrSyntax then Inl (NumError ''ParseInt'' s0 ErrSyntax)
            else if \<not> neg \<and> 9223372036854775808 \<le> un
              then Inl (NumError ''ParseInt'' s0 ErrRange)
            else if neg \<and> 9223372036854775808 < un
              then Inl (NumError ''ParseInt'' s0 ErrRange)
            else Inr (if neg then - un else un)))"

text \<open>
  \<open>strconv.ParseFloat\<close> and the conversion \<open>float32(x)\<close> that \<open>reflect\<close> applies when it
  stores into a \<open>float32\<close> are decimal-to-binary rounding; the model takes both as
  parameters, so every statement below holds for whatever they compute.
\<close>

record floatlib =
  ParseFloat :: "string \<Rightarrow> error + f64"
  to_float32 :: "f64 \<Rightarrow> f64"

section \<open>The range checks\<close>

definition checkIntOverflow :: "64 word \<Rightarrow> kind \<Rightarrow> bool" where
  "checkIntOverflow n t =
     (if t = KInt8 then \<not> (127 < sint n \<or> sint n < - 128)
      else if t = KInt16 then \<not> (32767 < sint n \<or> sint n < - 32768)
      else if t = KInt32 then \<not> (2147483647 < sint n \<or> sint n < - 2147483648)
      else if t = KInt \<or> t = KInt64
        then \<not> (9223372036854775807 < sint n \<or> sint n < - 9223372036854775808)
      else False)"

definition checkUIntOverflow :: "64 word \<Rightarrow> kind \<Rightarrow> bool" where
  "checkUIntOverflow n k =
     (if k = KUint8 then \<not> (255 < n \<or> n < 0)
      else if k = KUint16 then \<not> (65535 < n \<or> n < 0)
      else if k = KUint32 then \<not> (4294967295 < n \<or> n < 0)
      else if k = KUint \<or> k = KUint64 then \<not> (18446744073709551615 < n \<or> n < 0)
      else False)"

text \<open>The constants of package \<open>math\<close>, as that package writes them.\<close>

definition MaxFloat32 :: rat where
  "MaxFloat32 = 2 ^ 127 * (1 + (1 - 1 / 2 ^ 23))"

definition SmallestNonzeroFloat32 :: rat where
  "SmallestNonzeroFloat32 = (1 / 2 ^ 126) * (1 / 2 ^ 23)"

definition MaxFloat64 :: rat where
  "MaxFloat64 = 2 ^ 1023 * (1 + (1 - 1 / 2 ^ 52))"

definition SmallestNonzeroFloat64 :: rat where
  "SmallestNonzeroFloat64 = (1 / 2 ^ 1022) * (1 / 2 ^ 52)"

definition checkFloatOverflow :: "f64 \<Rightarrow> kind \<Rightarrow> bool" where
  "checkFloatOverflow n k =
     (if k = KFloat32 then \<not> (f64_gt n MaxFloat32 \<or> f64_lt n SmallestNonzeroFloat32)
      else if k = KFloat64 then \<not> (f64_gt n MaxFloat64 \<or> f64_lt n SmallestNonzeroFloat64)
      else False)"


section \<open>The binder: \<open>Parse\<close>\<close>

text \<open>
  One pass of the loop body either falls out of the \<open>switch\<close> with the field as it now
  is (\<open>Next\<close>), makes \<open>Parse\<close> return an error (\<open>Fail\<close>), or panics.
\<close>

datatype step = Next field | Fail error | Panic panic

text \<open>
  The setters of \<open>reflect.Value\<close>. Each first refuses a field that is not exported, then
  stores by the kind of the field; the integer setters convert to the field's width as
  Go's conversions do, by truncation.
\<close>

definition SetString :: "string \<Rightarrow> field \<Rightarrow> step" where
  "SetString x f =
     (if \<not> exported f then Panic (UnexportedField ''SetString'')
      else case fval f of
          VString _ \<Rightarrow> Next (StructField (fname f) (exported f) (VString x))
        | v \<Rightarrow> Panic (ValueError ''SetString'' (Kind v)))"

definition SetBool :: "bool \<Rightarrow> field \<Rightarrow> step" where
  "SetBool x f =
     (if \<not> exported f then Panic (UnexportedField ''SetBool'')
      else case fval f of
          VBool _ \<Rightarrow> Next (StructField (fname f) (exported f) (VBool x))
        | v \<Rightarrow> Panic (ValueError ''SetBool'' (Kind v)))"

definition SetInt :: "64 word \<Rightarrow> field \<Rightarrow> step" where
  "SetInt x f =
     (if \<not> exported f then Panic (UnexportedField ''SetInt'')
      else case fval f of
          VInt _ \<Rightarrow> Next (StructField (fname f) (exported f) (VInt x))
        | VInt8 _ \<Rightarrow> Next (StructField (fname f) (exported f) (VInt8 (ucast x)))
        | VInt16 _ \<Rightarrow> Next (StructField (fname f) (exported f) (VInt16 (ucast x)))
        | VInt32 _ \<Rightarrow> Next (StructField (fname f) (exported f) (VInt32 (ucast x)))
        | VInt64 _ \<Rightarrow> Next (StructField (fname f) (exported f) (VInt64 x))
        | v \<Rightarrow> Panic (ValueError ''SetInt'' (Kind v)))"

definition SetUint :: "64 word \<Rightarrow> field \<Rightarrow> step" where
  "SetUint x f =
     (if \<not> exported f then Panic (UnexportedField ''SetUint'')
      else case fval f of
          VUint _ \<Rightarrow> Next (StructField (fname f) (exported f) (VUint x))
        | VUint8 _ \<Rightarrow> Next (StructField (fname f) (exported f) (VUint8 (ucast x)))
        | VUint16 _ \<Rightarrow> Next (StructField (fname f) (exported f) (VUint16 (ucast x)))
        | VUint32 _ \<Rightarrow> Next (StructField (fname f) (exported f) (VUint32 (ucast x)))
        | VUint64 _ \<Rightarrow> Next (StructField (fname f) (exported f) (VUint64 x))
        | v \<Rightarrow> Panic (ValueError ''SetUint'' (Kind v)))"

definition SetFloat :: "floatlib \<Rightarrow> f64 \<Rightarrow> field \<Rightarrow> step" where
  "SetFloat lib x f =
     (if \<not> exported f then Panic (UnexportedField ''SetFloat'')
      else case fval f of
          VFloat32 _ \<Rightarrow> Next (StructField (fname f) (exported f) (VFloat32 (to_float32 lib x)))
        | VFloat64 _ \<Rightarrow> Next (StructField (fname f) (exported f) (VFloat64 x))
        | v \<Rightarrow> Panic (ValueError ''SetFloat'' (Kind v)))"

text \<open>
  The body of the loop of \<open>Parse\<close> for one field: the \<open>switch\<close> on the field's kind, with
  \<open>args\<close> the flag map.
\<close>

definition bindField :: "floatlib \<Rightarrow> flagmap \<Rightarrow> field \<Rightarrow> step" where
  "bindField lib args f =
     (let k = Kind (fval f) in
      if k = KString then SetString (at_key args (fname f)) f
      else if k = KBool then
        (case args (fname f) of
           Some v \<Rightarrow> SetBool (EqualFold v ''true'') f
         | None \<Rightarrow> Next f)
      else if k = KInt \<or> k = KInt8 \<or> k = KInt16 \<or> k = KInt32 \<or> k = KInt64 then
        (case ParseInt (at_key args (fname f)) of
           Inl err \<Rightarrow> Fail err
         | Inr n \<Rightarrow>
             if \<not> checkIntOverflow n k then Fail (ErrOverflowInt n k)
             else SetInt n f)
      else if k = KUint \<or> k = KUint8 \<or> k = KUint16 \<or> k = KUint32 \<or> k = KUint64 then
        (if Contains (at_key args (fname f)) ''-''
         then Fail (ErrUnderflow (at_key args (fname f)) k)
         else
           (case ParseUint (at_key args (fname f)) of
              Inl err \<Rightarrow> Fail err
            | Inr n \<Rightarrow>
                if \<not> checkUIntOverflow n k then Fail (ErrOverflowUint n k)
                else SetUint n f))
      else if k = KFloat32 \<or> k = KFloat64 then
        (case ParseFloat lib (at_key args (fname f)) of
           Inl err \<Rightarrow> Fail err
         | Inr n \<Rightarrow>
             if \<not> checkFloatOverflow n k then Fail (ErrOverflowFloat n k)
             else SetFloat lib n f)
      else Fail (ErrUnsupported k (fname f)))"

text \<open>
  The loop of \<open>Parse\<close> over the fields of the struct, with its index \<open>i\<close>; \<open>fs\<close> is the
  struct as written so far. It ends with the struct and the error \<open>Parse\<close> returns, or
  with a panic.
\<close>

function Parse_loop ::
  "floatlib \<Rightarrow> flagmap \<Rightarrow> field list \<Rightarrow> nat \<Rightarrow> panic + (field list \<times> error option)"
where
  "Parse_loop lib args fs i =
     (if i < length fs then
        (case bindField lib args (fs ! i) of
           Next f \<Rightarrow> Parse_loop lib args (fs[i := f]) (i + 1)
         | Fail err \<Rightarrow> Inr (fs, Some err)
         | Panic p \<Rightarrow> Inl p)
      else Inr (fs, None))"
  by pat_completeness auto
termination
  by (relation "measure (\<lambda>(lib, args, fs, i). length fs - i)") auto

declare Parse_loop.simps [simp del]

text \<open>
  The result of a call of \<open>Parse\<close>: it returns, leaving the destination as the first
  component says and giving the error (or \<open>nil\<close>) of the second, or it panics.
\<close>

datatype outcome = Returns gval "error option" | Panics panic

text \<open>
  \<open>Parse\<close>, with the process arguments \<open>os.Args\<close> as a parameter. The three checks of the
  destination come first; only then are the arguments read.
\<close>

definition Parse :: "floatlib \<Rightarrow> gval \<Rightarrow> string list \<Rightarrow> outcome" where
  "Parse lib s osArgs =
     (if Kind s \<noteq> KPointer then Returns s (Some (ErrExpectedPointer (Kind s)))
      else if IsNil s then Returns s (Some ErrNilDestination)
      else if Kind (Elem s) \<noteq> KStruct then Returns s (Some ErrNotStructPointer)
      else if osArgs = [] then Panics SliceBounds
      else
        (case mapArgSlice (drop 1 osArgs) of
           Inl p \<Rightarrow> Panics p
         | Inr args \<Rightarrow>
             (case Parse_loop lib args (struct_fields (Elem s)) 0 of
                Inl p \<Rightarrow> Panics p
              | Inr (fs, err) \<Rightarrow> Returns (VPtr (Some (VStruct fs))) err)))"


text \<open>
  A float library for closed examples without float fields: it refuses every text and
  converts nothing.
\<close>

definition nofloats :: floatlib where
  "nofloats = \<lparr>ParseFloat = (\<lambda>s. Inl (NumError ''ParseFloat'' s ErrSyntax)), to_float32 = (\<lambda>x. x)\<rparr>"

section \<open>Facts about strings and numbers\<close>

lemma Index_None_iff: "Index s [c] = None \<longleftrightarrow> c \<notin> set s"
  by (induction s) (auto simp: HasPrefix_def split: option.splits)

lemma Contains_single: "Contains s [c] \<longleftrightarrow> c \<in> set s"
  by (simp add: Contains_def Index_None_iff)

lemma ParseUint_loop_digits:
  "ParseUint_loop n s = (m, None) \<Longrightarrow> c \<in> set s \<Longrightarrow> is_digit c"
  by (induction s arbitrary: n) (auto simp: Let_def split: if_splits)

lemma ParseUint_no_minus: "ParseUint s = Inr u \<Longrightarrow> \<not> Contains s ''-''"
proof
  assume ok: "ParseUint s = Inr u" and "Contains s ''-''"
  then have mem: "CHR ''-'' \<in> set s" by (simp add: Contains_single)
  from ok have "ParseUint_loop 0 s = (u, None)"
    by (auto simp: ParseUint_def ParseUint_raw_def split: if_splits prod.splits option.splits)
  from ParseUint_loop_digits [OF this mem] show False by (simp add: is_digit_def)
qed

lemma sint64_bounds:
  "- 9223372036854775808 \<le> sint (n :: 64 word) \<and> sint n \<le> 9223372036854775807"
  using sint_ge [of n] sint_lt [of n] by simp

lemma uint64_bounds: "\<not> 18446744073709551615 < (u :: 64 word) \<and> \<not> u < 0"
proof -
  have "unat u < 2 ^ 64" using unsigned_less [of u, where 'a = nat] by simp
  then show ?thesis by (simp add: word_less_nat_alt)
qed

lemma checkIntOverflow_wide: "checkIntOverflow n KInt \<and> checkIntOverflow n KInt64"
  using sint64_bounds [of n] by (simp add: checkIntOverflow_def)

lemma checkUIntOverflow_wide: "checkUIntOverflow u KUint \<and> checkUIntOverflow u KUint64"
  using uint64_bounds [of u] by (simp add: checkUIntOverflow_def)

lemma SetString_not_Fail: "SetString x f \<noteq> Fail e"
  by (simp add: SetString_def split: gval.splits)

lemma SetBool_not_Fail: "SetBool x f \<noteq> Fail e"
  by (simp add: SetBool_def split: gval.splits)

lemma SetInt_not_Fail: "SetInt n f \<noteq> Fail e"
  by (simp add: SetInt_def split: gval.splits)

lemma SetUint_not_Fail: "SetUint n f \<noteq> Fail e"
  by (simp add: SetUint_def split: gval.splits)

lemma SetFloat_not_Fail: "SetFloat lib x f \<noteq> Fail e"
  by (simp add: SetFloat_def split: gval.splits)

lemma ParseInt_error: "ParseInt s = Inl e \<Longrightarrow> \<exists>c. e = NumError ''ParseInt'' s c"
  by (auto simp: ParseInt_def Let_def split: if_splits prod.splits)

lemma ParseUint_error: "ParseUint s = Inl e \<Longrightarrow> \<exists>c. e = NumError ''ParseUint'' s c"
  by (auto simp: ParseUint_def split: prod.splits option.splits)

text \<open>The loop body at a signed-integer field and at an unsigned-integer field.\<close>

lemma bindField_signed:
  assumes "Kind (fval f) = KInt \<or> Kind (fval f) = KInt8 \<or> Kind (fval f) = KInt16 \<or>
           Kind (fval f) = KInt32 \<or> Kind (fval f) = KInt64"
  shows "bindField lib args f =
     (case ParseInt (at_key args (fname f)) of
        Inl err \<Rightarrow> Fail err
      | Inr n \<Rightarrow>
          if \<not> checkIntOverflow n (Kind (fval f)) then Fail (ErrOverflowInt n (Kind (fval f)))
          else SetInt n f)"
  using assms unfolding bindField_def Let_def by auto

lemma bindField_unsigned:
  assumes "Kind (fval f) = KUint \<or> Kind (fval f) = KUint8 \<or> Kind (fval f) = KUint16 \<or>
           Kind (fval f) = KUint32 \<or> Kind (fval f) = KUint64"
  shows "bindField lib args f =
     (if Contains (at_key args (fname f)) ''-''
      then Fail (ErrUnderflow (at_key args (fname f)) (Kind (fval f)))
      else
        (case ParseUint (at_key args (fname f)) of
           Inl err \<Rightarrow> Fail err
         | Inr n \<Rightarrow>
             if \<not> checkUIntOverflow n (Kind (fval f))
             then Fail (ErrOverflowUint n (Kind (fval f)))
             else SetUint n f))"
  using assms unfolding bindField_def Let_def by auto

lemma opaque_kind_other: "opaque_kind k \<noteq> KPointer \<and> opaque_kind k \<noteq> KStruct"
  by (cases k) simp_all

lemma Kind_pointer: "Kind s = KPointer \<Longrightarrow> \<exists>p. s = VPtr p"
  using opaque_kind_other by (cases s) auto

lemma Kind_struct: "Kind v = KStruct \<Longrightarrow> \<exists>fs. v = VStruct fs"
  using opaque_kind_other by (cases v) auto

section \<open>Facts about the loop of \<open>Parse\<close>\<close>

text \<open>
  Storing a 64-bit value into a narrower field keeps the value when it is in the range
  of the width.
\<close>

lemma sint_ucast_narrow:
  fixes n :: "64 word"
  assumes "LENGTH('b::len) \<le> 64"
    and "- (2 ^ (LENGTH('b) - 1)) \<le> sint n" and "sint n < 2 ^ (LENGTH('b) - 1)"
  shows "sint (ucast n :: 'b word) = sint n"
proof -
  have "sint (ucast n :: 'b word) = signed_take_bit (LENGTH('b) - Suc 0) (uint n)"
    by (rule signed_ucast_eq)
  also have "\<dots> = signed_take_bit (LENGTH('b) - Suc 0) (signed_take_bit 63 (uint n))"
  proof -
    have "LENGTH('b) - Suc 0 \<le> 63" using assms(1) by arith
    then show ?thesis by (simp add: min_absorb1)
  qed
  also have "signed_take_bit 63 (uint n) = sint n"
    by (simp add: sint_uint)
  also have "signed_take_bit (LENGTH('b) - Suc 0) (sint n) = sint n"
    using assms(2,3) by (simp add: signed_take_bit_int_eq_self)
  finally show ?thesis .
qed

lemma unat_ucast_narrow:
  fixes n :: "64 word"
  assumes "unat n < 2 ^ LENGTH('b::len)"
  shows "unat (ucast n :: 'b word) = unat n"
  using assms by (simp add: unsigned_ucast_eq take_bit_nat_eq_self)

lemma Parse_loop_frame:
  "Parse_loop lib args fs i = Inr (fs', err) \<Longrightarrow>
     length fs' = length fs \<and> (\<forall>j<i. fs' ! j = fs ! j) \<and>
     (case err of
        None \<Rightarrow> (\<forall>j. i \<le> j \<and> j < length fs \<longrightarrow> bindField lib args (fs ! j) = Next (fs' ! j))
      | Some e \<Rightarrow>
          (\<exists>k. i \<le> k \<and> k < length fs \<and> bindField lib args (fs ! k) = Fail e \<and>
               (\<forall>j. i \<le> j \<and> j < k \<longrightarrow> bindField lib args (fs ! j) = Next (fs' ! j)) \<and>
               (\<forall>j. k \<le> j \<and> j < length fs \<longrightarrow> fs' ! j = fs ! j)))"
proof (induction lib args fs i arbitrary: fs' err rule: Parse_loop.induct)
  case (1 lib args fs i)
  show ?case
  proof (cases "i < length fs")
    case False
    with "1.prems" show ?thesis by (auto simp: Parse_loop.simps)
  next
    case True
    show ?thesis
    proof (cases "bindField lib args (fs ! i)")
      case (Panic p)
      with True "1.prems" show ?thesis by (simp add: Parse_loop.simps)
    next
      case (Fail e)
      with True "1.prems" have "fs' = fs" "err = Some e" by (simp_all add: Parse_loop.simps)
      with True Fail show ?thesis by auto
    next
      case (Next f)
      with True "1.prems" have run: "Parse_loop lib args (fs[i := f]) (i + 1) = Inr (fs', err)"
        by (simp add: Parse_loop.simps)
      note IH = "1.IH" [OF True Next run]
      from IH have len: "length fs' = length fs" by simp
      from IH have pre: "\<forall>j<i + 1. fs' ! j = fs[i := f] ! j" by simp
      then have at_i: "fs' ! i = f" using True by simp
      from pre have before: "\<forall>j<i. fs' ! j = fs ! j" by simp
      show ?thesis
      proof (cases err)
        case None
        with IH have rest: "\<forall>j. i + 1 \<le> j \<and> j < length fs \<longrightarrow>
            bindField lib args (fs[i := f] ! j) = Next (fs' ! j)" by simp
        have "bindField lib args (fs ! j) = Next (fs' ! j)" if "i \<le> j" "j < length fs" for j
        proof (cases "j = i")
          case True
          with Next at_i show ?thesis by simp
        next
          case False
          with that rest show ?thesis by simp
        qed
        with None len before show ?thesis by simp
      next
        case (Some e)
        with IH obtain k where k: "i + 1 \<le> k" "k < length fs"
          "bindField lib args (fs[i := f] ! k) = Fail e"
          "\<forall>j. i + 1 \<le> j \<and> j < k \<longrightarrow> bindField lib args (fs[i := f] ! j) = Next (fs' ! j)"
          "\<forall>j. k \<le> j \<and> j < length fs \<longrightarrow> fs' ! j = fs[i := f] ! j"
          by auto
        have a: "bindField lib args (fs ! k) = Fail e" using k(1,3) by simp
        have b: "bindField lib args (fs ! j) = Next (fs' ! j)" if "i \<le> j" "j < k" for j
        proof (cases "j = i")
          case True
          with Next at_i show ?thesis by simp
        next
          case False
          with that k(4) show ?thesis by simp
        qed
        have c: "fs' ! j = fs ! j" if "k \<le> j" "j < length fs" for j
          using that k(1,5) by simp
        from a b c k(1,2) have "\<exists>k. i \<le> k \<and> k < length fs \<and> bindField lib args (fs ! k) = Fail e \<and>
               (\<forall>j. i \<le> j \<and> j < k \<longrightarrow> bindField lib args (fs ! j) = Next (fs' ! j)) \<and>
               (\<forall>j. k \<le> j \<and> j < length fs \<longrightarrow> fs' ! j = fs ! j)"
          by (intro exI [of _ k]) auto
        with Some len before show ?thesis by simp
      qed
    qed
  qed
qed


lemma Parse_loop_fails_at:
  "k < length fs \<Longrightarrow> i \<le> k \<Longrightarrow>
   (\<forall>j. i \<le> j \<and> j < k \<longrightarrow> (\<exists>g. bindField lib args (fs ! j) = Next g)) \<Longrightarrow>
   bindField lib args (fs ! k) = Fail e \<Longrightarrow>
   \<exists>fs'. Parse_loop lib args fs i = Inr (fs', Some e) \<and> length fs' = length fs \<and>
         (\<forall>j. k \<le> j \<and> j < length fs \<longrightarrow> fs' ! j = fs ! j) \<and> (\<forall>j<i. fs' ! j = fs ! j)"
proof (induction "k - i" arbitrary: fs i)
  case 0
  then have "i = k" by simp
  with 0 show ?case by (simp add: Parse_loop.simps)
next
  case (Suc d)
  then have lt: "i < k" by simp
  with Suc.prems obtain g where g: "bindField lib args (fs ! i) = Next g" by blast
  let ?fs = "fs[i := g]"
  have step: "Parse_loop lib args fs i = Parse_loop lib args ?fs (i + 1)"
    using lt Suc.prems(1) g by (simp add: Parse_loop.simps)
  have "\<exists>fs'. Parse_loop lib args ?fs (i + 1) = Inr (fs', Some e) \<and> length fs' = length ?fs \<and>
         (\<forall>j. k \<le> j \<and> j < length ?fs \<longrightarrow> fs' ! j = ?fs ! j) \<and> (\<forall>j<i + 1. fs' ! j = ?fs ! j)"
  proof (rule Suc.hyps(1))
    show "d = k - (i + 1)" using Suc.hyps(2) by simp
    show "k < length ?fs" using Suc.prems(1) by simp
    show "i + 1 \<le> k" using lt by simp
    show "\<forall>j. i + 1 \<le> j \<and> j < k \<longrightarrow> (\<exists>g'. bindField lib args (?fs ! j) = Next g')"
      using Suc.prems(3) by simp
    show "bindField lib args (?fs ! k) = Fail e" using Suc.prems(4) lt by simp
  qed
  then obtain fs' where r: "Parse_loop lib args ?fs (i + 1) = Inr (fs', Some e)"
    "length fs' = length ?fs" "\<forall>j. k \<le> j \<and> j < length ?fs \<longrightarrow> fs' ! j = ?fs ! j"
    "\<forall>j<i + 1. fs' ! j = ?fs ! j" by blast
  have "\<forall>j. k \<le> j \<and> j < length fs \<longrightarrow> fs' ! j = fs ! j" using r(3) lt by simp
  moreover have "\<forall>j<i. fs' ! j = fs ! j" using r(4) by simp
  ultimately show ?case using step r(1,2) by simp
qed

lemma Parse_loop_succeeds:
  "length hs = length fs \<Longrightarrow> (\<forall>j<i. hs ! j = fs ! j) \<Longrightarrow>
   (\<forall>j. i \<le> j \<and> j < length fs \<longrightarrow> bindField lib args (fs ! j) = Next (hs ! j)) \<Longrightarrow>
   Parse_loop lib args fs i = Inr (hs, None)"
proof (induction "length fs - i" arbitrary: fs i)
  case 0
  then have "hs = fs" by (intro nth_equalityI) auto
  with 0 show ?case by (simp add: Parse_loop.simps)
next
  case (Suc d)
  then have lt: "i < length fs" by simp
  with Suc.prems have g: "bindField lib args (fs ! i) = Next (hs ! i)" by simp
  let ?fs = "fs[i := hs ! i]"
  have step: "Parse_loop lib args fs i = Parse_loop lib args ?fs (i + 1)"
    using lt g by (simp add: Parse_loop.simps)
  have "Parse_loop lib args ?fs (i + 1) = Inr (hs, None)"
  proof (rule Suc.hyps(1))
    show "d = length ?fs - (i + 1)" using Suc.hyps(2) by simp
    show "length hs = length ?fs" using Suc.prems(1) by simp
    show "\<forall>j<i + 1. hs ! j = ?fs ! j"
      using Suc.prems(2) lt by (auto simp: nth_list_update less_Suc_eq)
    show "\<forall>j. i + 1 \<le> j \<and> j < length ?fs \<longrightarrow> bindField lib args (?fs ! j) = Next (hs ! j)"
      using Suc.prems(3) by simp
  qed
  with step show ?case by simp
qed

lemma Parse_struct:
  "Parse lib (VPtr (Some (VStruct fs))) (prog # rest) =
     (case mapArgSlice rest of
        Inl p \<Rightarrow> Panics p
      | Inr args \<Rightarrow>
          (case Parse_loop lib args fs 0 of
             Inl p \<Rightarrow> Panics p
           | Inr (fs', err) \<Rightarrow> Returns (VPtr (Some (VStruct fs'))) err))"
  by (cases "mapArgSlice rest") (simp_all add: Parse_def)

section \<open>What \<open>ParseUint\<close> and \<open>ParseInt\<close> compute\<close>

text \<open>
  The reading of a decimal literal, to state what the two parsers compute: \<open>dec_val\<close>
  is the number a string of digits denotes, and \<open>int_literal\<close> the integer denoted by
  an optional sign followed by at least one digit (\<open>None\<close> for any other text).
\<close>

fun dec_val :: "string \<Rightarrow> nat" where
  "dec_val [] = 0"
| "dec_val (c # cs) = (of_char c - 48) * 10 ^ length cs + dec_val cs"

definition int_literal :: "string \<Rightarrow> int option" where
  "int_literal s =
     (let neg = (s \<noteq> [] \<and> hd s = CHR ''-'');
          ds = (if s \<noteq> [] \<and> (hd s = CHR ''+'' \<or> hd s = CHR ''-'') then tl s else s)
      in if ds \<noteq> [] \<and> list_all is_digit ds
         then Some (if neg then - int (dec_val ds) else int (dec_val ds))
         else None)"

lemma unat64_lt: "unat (n :: 64 word) < 18446744073709551616"
  using unsigned_less [of n, where 'a = nat] by simp

lemma unat64_mul10: "unat (n :: 64 word) < 1844674407370955162 \<Longrightarrow> unat (n * 10) = unat n * 10"
  by (simp add: unat_word_ariths)

lemma unat64_digit: "d < 10 \<Longrightarrow> unat (of_nat d :: 64 word) = d"
  by (simp add: unat_of_nat)

lemma unat64_add: "unat ((a :: 64 word) + b) = (unat a + unat b) mod 18446744073709551616"
  by (simp add: unat_word_ariths)

text \<open>One digit more, when the value read so far is below the cutoff.\<close>

lemma push_digit_fits:
  fixes n :: "64 word"
  assumes "d < 10" and "unat n * 10 + d < 18446744073709551616"
  shows "\<not> 1844674407370955162 \<le> n"
    and "unat (n * 10 + of_nat d) = unat n * 10 + d"
    and "\<not> n * 10 + of_nat d < n * 10"
proof -
  from assms(2) have small: "unat n < 1844674407370955162" by arith
  then show "\<not> 1844674407370955162 \<le> n" by (simp add: word_le_nat_alt)
  have "unat (n * 10 + of_nat d) = (unat n * 10 + d) mod 18446744073709551616"
    by (simp only: unat64_add unat64_mul10 [OF small] unat64_digit [OF assms(1)])
  with assms(2) show u: "unat (n * 10 + of_nat d) = unat n * 10 + d" by simp
  show "\<not> n * 10 + of_nat d < n * 10"
    by (simp only: word_less_nat_alt u unat64_mul10 [OF small])
qed

lemma push_digit_overflows:
  fixes n :: "64 word"
  assumes "d < 10" and "\<not> unat n * 10 + d < 18446744073709551616"
  shows "1844674407370955162 \<le> n \<or> n * 10 + of_nat d < n * 10"
proof (cases "unat n < 1844674407370955162")
  case False
  then show ?thesis by (simp add: word_le_nat_alt)
next
  case True
  have "unat (n * 10 + of_nat d) = (unat n * 10 + d) mod 18446744073709551616"
    by (simp only: unat64_add unat64_mul10 [OF True] unat64_digit [OF assms(1)])
  moreover have "unat n * 10 + d < 2 * 18446744073709551616" using True assms(1) by arith
  ultimately have "unat (n * 10 + of_nat d) = unat n * 10 + d - 18446744073709551616"
    using assms(2) by (simp add: mod_if)
  with assms have "unat (n * 10 + of_nat d) < unat n * 10" by arith
  then have "n * 10 + of_nat d < n * 10"
    by (simp only: word_less_nat_alt unat64_mul10 [OF True])
  then show ?thesis ..
qed


lemma is_digit_val: "is_digit c \<Longrightarrow> (of_char c :: nat) - 48 < 10"
  by (auto simp: is_digit_def)

lemma ParseUint_loop_value:
  "list_all is_digit s \<Longrightarrow>
   ParseUint_loop n s =
     (if unat n * 10 ^ length s + dec_val s < 18446744073709551616
      then (of_nat (unat n * 10 ^ length s + dec_val s), None)
      else (18446744073709551615, Some ErrRange))"
proof (induction s arbitrary: n)
  case Nil
  show ?case using unat64_lt [of n] by simp
next
  case (Cons c cs)
  let ?d = "(of_char c :: nat) - 48"
  let ?n1 = "n * 10 + of_nat ?d"
  from Cons.prems have dig: "is_digit c" and rest: "list_all is_digit cs" by simp_all
  have d: "?d < 10" using dig by (rule is_digit_val)
  have total: "unat n * 10 ^ length (c # cs) + dec_val (c # cs)
      = (unat n * 10 + ?d) * 10 ^ length cs + dec_val cs"
    by (simp add: algebra_simps)
  show ?case
  proof (cases "unat n * 10 + ?d < 18446744073709551616")
    case True
    note fits = push_digit_fits [OF d True]
    have "ParseUint_loop n (c # cs) = ParseUint_loop ?n1 cs"
      using dig fits(1,3) uint64_bounds [of ?n1] by (simp add: Let_def)
    also have "\<dots> = (if unat ?n1 * 10 ^ length cs + dec_val cs < 18446744073709551616
      then (of_nat (unat ?n1 * 10 ^ length cs + dec_val cs), None)
      else (18446744073709551615, Some ErrRange))"
      by (rule Cons.IH [OF rest])
    finally show ?thesis by (simp only: fits(2) total)
  next
    case False
    have "ParseUint_loop n (c # cs) = (18446744073709551615, Some ErrRange)"
      using dig push_digit_overflows [OF d False] by (auto simp: Let_def)
    moreover have "\<not> unat n * 10 ^ length (c # cs) + dec_val (c # cs) < 18446744073709551616"
    proof -
      have "unat n * 10 + ?d \<le> (unat n * 10 + ?d) * 10 ^ length cs" by simp
      with False show ?thesis by (simp only: total)
    qed
    ultimately show ?thesis by (simp only: if_False)
  qed
qed


lemma ParseUint_raw_digits:
  "ds \<noteq> [] \<Longrightarrow> list_all is_digit ds \<Longrightarrow>
   ParseUint_raw ds =
     (if dec_val ds < 18446744073709551616 then (of_nat (dec_val ds), None)
      else (18446744073709551615, Some ErrRange))"
  using ParseUint_loop_value [of ds 0] by (simp add: ParseUint_raw_def)

lemma ParseUint_raw_non_digits:
  "ds = [] \<or> \<not> list_all is_digit ds \<Longrightarrow> snd (ParseUint_raw ds) \<noteq> None"
proof (cases "ds = []")
  case True
  then show ?thesis by (simp add: ParseUint_raw_def)
next
  case False
  assume "ds = [] \<or> \<not> list_all is_digit ds"
  with False obtain c where c: "c \<in> set ds" "\<not> is_digit c" by (auto simp: list_all_iff)
  show ?thesis
  proof
    assume "snd (ParseUint_raw ds) = None"
    with False have "ParseUint_loop 0 ds = (fst (ParseUint_loop 0 ds), None)"
      by (simp add: ParseUint_raw_def prod_eq_iff)
    from ParseUint_loop_digits [OF this c(1)] c(2) show False by simp
  qed
qed

lemma word64_of_nat_le:
  "D < 18446744073709551616 \<Longrightarrow>
   ((9223372036854775808 :: 64 word) \<le> of_nat D) = (9223372036854775808 \<le> D)"
  by (simp add: word_le_nat_alt unat_of_nat)

lemma word64_of_nat_less:
  "D < 18446744073709551616 \<Longrightarrow>
   ((9223372036854775808 :: 64 word) < of_nat D) = (9223372036854775808 < D)"
  by (simp add: word_less_nat_alt unat_of_nat)

lemma word64_max_ge: "(9223372036854775808 :: 64 word) \<le> 18446744073709551615"
  "(9223372036854775808 :: 64 word) < 18446744073709551615"
  by (simp_all add: word_le_nat_alt word_less_nat_alt)

lemma ParseInt_literal:
  assumes "int_literal s = Some v"
  shows "ParseInt s =
     (if - 9223372036854775808 \<le> v \<and> v \<le> 9223372036854775807 then Inr (of_int v)
      else Inl (NumError ''ParseInt'' s ErrRange))"
proof -
  let ?neg = "hd s = CHR ''-''"
  let ?ds = "if hd s = CHR ''+'' \<or> hd s = CHR ''-'' then tl s else s"
  let ?D = "dec_val ?ds"
  from assms have ne: "s \<noteq> []"
    by (auto simp: int_literal_def Let_def split: if_splits)
  from assms ne have ds: "?ds \<noteq> []" "list_all is_digit ?ds"
    and v: "v = (if ?neg then - int ?D else int ?D)"
    by (auto simp: int_literal_def Let_def split: if_splits)
  note raw = ParseUint_raw_digits [OF ds]
  show ?thesis
  proof (cases "?D < 18446744073709551616")
    case False
    with raw have "ParseUint_raw ?ds = (18446744073709551615, Some ErrRange)" by simp
    moreover from False v have "\<not> (- 9223372036854775808 \<le> v \<and> v \<le> 9223372036854775807)"
      by (cases ?neg) simp_all
    ultimately show ?thesis using ne word64_max_ge
      by (simp add: ParseInt_def Let_def)
  next
    case True
    with raw have r: "ParseUint_raw ?ds = (of_nat ?D, None)" by simp
    show ?thesis
    proof (cases ?neg)
      case neg: True
      then have v': "v = - int ?D" using v by simp
      have "ParseInt s = (if 9223372036854775808 < ?D then Inl (NumError ''ParseInt'' s ErrRange)
          else Inr (- of_nat ?D))"
        using ne neg r word64_of_nat_less [OF True] by (simp add: ParseInt_def Let_def)
      then show ?thesis using v' by (auto simp: not_less)
    next
      case pos: False
      then have v': "v = int ?D" using v by simp
      have "ParseInt s = (if 9223372036854775808 \<le> ?D then Inl (NumError ''ParseInt'' s ErrRange)
          else Inr (of_nat ?D))"
        using ne pos r word64_of_nat_le [OF True] by (simp add: ParseInt_def Let_def)
      then show ?thesis using v' by (auto simp: not_le)
    qed
  qed
qed

lemma ParseUint_loop_range:
  "ParseUint_loop n s = (un, Some ErrRange) \<Longrightarrow> un = 18446744073709551615"
  by (induction s arbitrary: n) (auto simp: Let_def split: if_splits)

lemma ParseInt_non_literal:
  assumes "int_literal s = None"
  shows "ParseInt s = Inl (NumError ''ParseInt'' s ErrSyntax) \<or>
         ParseInt s = Inl (NumError ''ParseInt'' s ErrRange)"
proof (cases "s = []")
  case True
  then show ?thesis by (simp add: ParseInt_def)
next
  case False
  let ?ds = "if hd s = CHR ''+'' \<or> hd s = CHR ''-'' then tl s else s"
  from assms False have "?ds = [] \<or> \<not> list_all is_digit ?ds"
    by (auto simp: int_literal_def Let_def split: if_splits)
  from ParseUint_raw_non_digits [OF this] obtain un e where r: "ParseUint_raw ?ds = (un, Some e)"
    by (cases "ParseUint_raw ?ds") auto
  show ?thesis
  proof (cases e)
    case ErrSyntax
    with r False show ?thesis by (simp add: ParseInt_def Let_def)
  next
    case ErrRange
    with r False have "un = 18446744073709551615"
      using ParseUint_loop_range [of 0 ?ds un] by (simp add: ParseUint_raw_def split: if_splits)
    with r ErrRange False show ?thesis using word64_max_ge
      by (simp add: ParseInt_def Let_def)
  qed
qed

section \<open>Widths and stored values\<close>

text \<open>
  The declared width in bits of an integer kind, and the integer that a signed-integer
  value holds.
\<close>

fun int_bits :: "kind \<Rightarrow> nat" where
  "int_bits KInt8 = 8"
| "int_bits KInt16 = 16"
| "int_bits KInt32 = 32"
| "int_bits KInt64 = 64"
| "int_bits KInt = 64"
| "int_bits KUint8 = 8"
| "int_bits KUint16 = 16"
| "int_bits KUint32 = 32"
| "int_bits KUint64 = 64"
| "int_bits KUint = 64"
| "int_bits _ = 0"

fun signed_value :: "gval \<Rightarrow> int" where
  "signed_value (VInt w) = sint w"
| "signed_value (VInt8 w) = sint w"
| "signed_value (VInt16 w) = sint w"
| "signed_value (VInt32 w) = sint w"
| "signed_value (VInt64 w) = sint w"
| "signed_value _ = 0"

lemma checkIntOverflow_range:
  assumes "k = KInt \<or> k = KInt8 \<or> k = KInt16 \<or> k = KInt32 \<or> k = KInt64"
  shows "checkIntOverflow n k \<longleftrightarrow>
     - (2 ^ (int_bits k - 1)) \<le> sint n \<and> sint n \<le> 2 ^ (int_bits k - 1) - 1"
  using assms sint64_bounds [of n] by (auto simp: checkIntOverflow_def)

lemma sint_of_int_64:
  "- 9223372036854775808 \<le> v \<Longrightarrow> v \<le> 9223372036854775807 \<Longrightarrow> sint (of_int v :: 64 word) = v"
  by (simp add: sint_sbintrunc' signed_take_bit_int_eq_self)

lemma SetInt_stores:
  assumes "exported f"
    and "Kind (fval f) = KInt \<or> Kind (fval f) = KInt8 \<or> Kind (fval f) = KInt16 \<or>
         Kind (fval f) = KInt32 \<or> Kind (fval f) = KInt64"
    and "- (2 ^ (int_bits (Kind (fval f)) - 1)) \<le> sint n"
    and "sint n \<le> 2 ^ (int_bits (Kind (fval f)) - 1) - 1"
  shows "\<exists>x. SetInt n f = Next (StructField (fname f) True x) \<and> Kind x = Kind (fval f) \<and>
             signed_value x = sint n"
proof (cases "fval f")
  case (VInt8 w)
  with assms show ?thesis
    using sint_ucast_narrow [of n, where 'b = 8] by (simp add: SetInt_def)
next
  case (VInt16 w)
  with assms show ?thesis
    using sint_ucast_narrow [of n, where 'b = 16] by (simp add: SetInt_def)
next
  case (VInt32 w)
  with assms show ?thesis
    using sint_ucast_narrow [of n, where 'b = 32] by (simp add: SetInt_def)
next
  case (VOther opq)
  with assms(2) show ?thesis by (cases opq) simp_all
qed (use assms in \<open>simp_all add: SetInt_def\<close>)

lemma Parse_fails_at:
  assumes "mapArgSlice rest = Inr args" and "k < length fs"
    and "\<forall>j<k. \<exists>g. bindField lib args (fs ! j) = Next g"
    and "bindField lib args (fs ! k) = Fail e"
  shows "\<exists>fs'. Parse lib (VPtr (Some (VStruct fs))) (prog # rest) =
           Returns (VPtr (Some (VStruct fs'))) (Some e) \<and>
           length fs' = length fs \<and> fs' ! k = fs ! k"
proof -
  from Parse_loop_fails_at [OF assms(2) _ _ assms(4), of 0] assms(3)
  obtain fs' where "Parse_loop lib args fs 0 = Inr (fs', Some e)" "length fs' = length fs"
    "\<forall>j. k \<le> j \<and> j < length fs \<longrightarrow> fs' ! j = fs ! j"
    by auto
  with assms(1,2) show ?thesis by (auto simp: Parse_struct)
qed

lemma Parse_keeps_bound:
  assumes "mapArgSlice rest = Inr args" and "k < length fs"
    and "\<forall>j<k. \<exists>g. bindField lib args (fs ! j) = Next g"
    and "bindField lib args (fs ! k) = Next g"
    and "Parse lib (VPtr (Some (VStruct fs))) (prog # rest) = Returns (VPtr (Some (VStruct fs'))) err"
  shows "fs' ! k = g"
proof -
  from assms(1,5) have run: "Parse_loop lib args fs 0 = Inr (fs', err)"
    by (auto simp: Parse_struct split: sum.splits)
  note fr = Parse_loop_frame [OF run]
  show ?thesis
  proof (cases err)
    case None
    with fr assms(2) have "bindField lib args (fs ! k) = Next (fs' ! k)" by simp
    with assms(4) show ?thesis by simp
  next
    case (Some e)
    with fr obtain m where m: "m < length fs" "bindField lib args (fs ! m) = Fail e"
      "\<forall>j. 0 \<le> j \<and> j < m \<longrightarrow> bindField lib args (fs ! j) = Next (fs' ! j)"
      by auto
    have "k < m"
    proof (rule ccontr)
      assume "\<not> k < m"
      then have "m < k \<or> m = k" by arith
      with assms(3,4) m(2) show False by auto
    qed
    with m(3) have "bindField lib args (fs ! k) = Next (fs' ! k)" by simp
    with assms(4) show ?thesis by simp
  qed
qed

section \<open>Facts about \<open>Parse\<close> and the tokenizer\<close>

lemma Parse_returns_struct:
  assumes "Parse lib (VPtr (Some (VStruct fs))) osArgs = Returns d err"
  shows "\<exists>fs' args. d = VPtr (Some (VStruct fs')) \<and> mapArgSlice (drop 1 osArgs) = Inr args \<and>
           Parse_loop lib args fs 0 = Inr (fs', err)"
  using assms by (auto simp: Parse_def split: if_splits sum.splits)

lemma SplitN2_length: "Contains s sep \<Longrightarrow> length (SplitN2 s sep) = 2"
  by (auto simp: Contains_def SplitN2_def)

lemma HasPrefix_dashes: "HasPrefix s ''--'' \<Longrightarrow> HasPrefix s ''-''"
  by (cases s) (auto simp: HasPrefix_def)

lemma final_long_flag_panics_from:
  assumes "args \<noteq> []" and "HasPrefix (last args) ''--''"
    and "\<not> Contains (TrimPrefix (last args) ''--'') ''=''"
    and "i < length args"
  shows "mapArgSlice_loop args i res = Inl (IndexOutOfRange (length args) (length args))"
  using assms(4)
proof (induction "length args - i" arbitrary: i res rule: less_induct)
  case less
  let ?n = "length args"
  have lastn: "args ! (?n - 1) = last args" using assms(1) by (simp add: last_conv_nth)
  have dash: "HasPrefix (last args) ''-''" using assms(2) by (rule HasPrefix_dashes)
  show ?case
  proof (cases "i = ?n - 1")
    case True
    with less.prems have e: "i + 1 = ?n" by arith
    from True lastn have a: "args ! i = last args" by simp
    have "mapArgSlice_loop args i res = Inl (IndexOutOfRange (i + 1) ?n)"
      using less.prems a assms(2,3) e
      by (subst mapArgSlice_loop.simps) (simp add: Let_def del: One_nat_def)
    with e show ?thesis by simp
  next
    case False
    with less.prems have lt: "i + 1 < ?n" by arith
    have next1: "mapArgSlice_loop args (i + 1) r = Inl (IndexOutOfRange ?n ?n)" for r
      using lt by (intro less.hyps) arith+
    have next2: "mapArgSlice_loop args (i + 1 + 1) r = Inl (IndexOutOfRange ?n ?n)"
      if "\<not> HasPrefix (args ! (i + 1)) ''-''" for r
    proof -
      from that dash lastn have "i + 1 \<noteq> ?n - 1" by auto
      with lt have "i + 1 + 1 < ?n" by arith
      then show ?thesis by (intro less.hyps) arith+
    qed
    show ?thesis
      using less.prems lt next1 next2
      by (subst mapArgSlice_loop.simps) (simp add: Let_def SplitN2_length)
  qed
qed

lemma Parse_loop_panics_at:
  "k < length fs \<Longrightarrow> i \<le> k \<Longrightarrow>
   (\<forall>j. i \<le> j \<and> j < k \<longrightarrow> (\<exists>g. bindField lib args (fs ! j) = Next g)) \<Longrightarrow>
   bindField lib args (fs ! k) = Panic p \<Longrightarrow>
   Parse_loop lib args fs i = Inl p"
proof (induction "k - i" arbitrary: fs i)
  case 0
  then have "i = k" by simp
  with 0 show ?case by (simp add: Parse_loop.simps)
next
  case (Suc d)
  then have lt: "i < k" by simp
  with Suc.prems obtain g where g: "bindField lib args (fs ! i) = Next g" by blast
  let ?fs = "fs[i := g]"
  have step: "Parse_loop lib args fs i = Parse_loop lib args ?fs (i + 1)"
    using lt Suc.prems(1) g by (simp add: Parse_loop.simps)
  have "Parse_loop lib args ?fs (i + 1) = Inl p"
  proof (rule Suc.hyps(1))
    show "d = k - (i + 1)" using Suc.hyps(2) by simp
    show "k < length ?fs" using Suc.prems(1) by simp
    show "i + 1 \<le> k" using lt by simp
    show "\<forall>j. i + 1 \<le> j \<and> j < k \<longrightarrow> (\<exists>g'. bindField lib args (?fs ! j) = Next g')"
      using Suc.prems(3) by simp
    show "bindField lib args (?fs ! k) = Panic p" using Suc.prems(4) lt by simp
  qed
  with step show ?case by simp
qed

lemma Parse_panics_at:
  assumes "mapArgSlice rest = Inr args" and "k < length fs"
    and "\<forall>j<k. \<exists>g. bindField lib args (fs ! j) = Next g"
    and "bindField lib args (fs ! k) = Panic p"
  shows "Parse lib (VPtr (Some (VStruct fs))) (prog # rest) = Panics p"
proof -
  have "Parse_loop lib args fs 0 = Inl p"
    using assms(3) by (intro Parse_loop_panics_at [OF assms(2) _ _ assms(4)]) simp_all
  with assms(1) show ?thesis by (simp add: Parse_struct)
qed

text \<open>What the loop body makes of a field, the field itself where it does not bind.\<close>

definition bound_field :: "floatlib \<Rightarrow> flagmap \<Rightarrow> field \<Rightarrow> field" where
  "bound_field lib args f = (case bindField lib args f of Next g \<Rightarrow> g | _ \<Rightarrow> f)"

lemma Parse_binds_all:
  assumes "mapArgSlice rest = Inr args"
    and "\<forall>j<length fs. \<exists>g. bindField lib args (fs ! j) = Next g"
  shows "Parse lib (VPtr (Some (VStruct fs))) (prog # rest) =
           Returns (VPtr (Some (VStruct (map (bound_field lib args) fs)))) None"
proof -
  have "bindField lib args (fs ! j) = Next (map (bound_field lib args) fs ! j)"
    if "j < length fs" for j
    using assms(2) that by (auto simp: bound_field_def)
  then have "Parse_loop lib args fs 0 = Inr (map (bound_field lib args) fs, None)"
    by (intro Parse_loop_succeeds) simp_all
  with assms(1) show ?thesis by (simp add: Parse_struct)
qed

section \<open>Writing a record back as tokens\<close>

text \<open>
  The repository has no serializer; the round trip of the specification needs one.
  Following the specification's words, a field is written as the token
  \<open>--name=value\<close>: a string verbatim, a boolean as \<open>true\<close> or \<open>false\<close>, an integer
  in decimal with a leading \<open>-\<close> when negative (what \<open>strconv.FormatInt\<close> and
  \<open>strconv.FormatUint\<close> print in base 10). \<open>stable_kind\<close> names the kinds the round trip is
  about: string, bool and the integer kinds.
\<close>

definition digit :: "nat \<Rightarrow> char" where
  "digit d = ''0123456789'' ! d"

fun FormatUint :: "nat \<Rightarrow> string" where
  "FormatUint n =
     (if n < 10 then [digit n]
      else FormatUint (n div 10) @ [digit (n mod 10)])"

declare FormatUint.simps [simp del]

definition FormatInt :: "int \<Rightarrow> string" where
  "FormatInt i = (if i < 0 then CHR ''-'' # FormatUint (nat (- i)) else FormatUint (nat i))"

fun format_value :: "gval \<Rightarrow> string" where
  "format_value (VString s) = s"
| "format_value (VBool b) = (if b then ''true'' else ''false'')"
| "format_value (VInt w) = FormatInt (sint w)"
| "format_value (VInt8 w) = FormatInt (sint w)"
| "format_value (VInt16 w) = FormatInt (sint w)"
| "format_value (VInt32 w) = FormatInt (sint w)"
| "format_value (VInt64 w) = FormatInt (sint w)"
| "format_value (VUint w) = FormatUint (unat w)"
| "format_value (VUint8 w) = FormatUint (unat w)"
| "format_value (VUint16 w) = FormatUint (unat w)"
| "format_value (VUint32 w) = FormatUint (unat w)"
| "format_value (VUint64 w) = FormatUint (unat w)"
| "format_value _ = []"

definition token :: "field \<Rightarrow> string" where
  "token f = ''--'' @ fname f @ ''='' @ format_value (fval f)"

definition serialize :: "field list \<Rightarrow> string list" where
  "serialize fs = map token fs"

definition stable_kind :: "kind \<Rightarrow> bool" where
  "stable_kind k =
     (k = KString \<or> k = KBool \<or>
      k = KInt \<or> k = KInt8 \<or> k = KInt16 \<or> k = KInt32 \<or> k = KInt64 \<or>
      k = KUint \<or> k = KUint8 \<or> k = KUint16 \<or> k = KUint32 \<or> k = KUint64)"

text \<open>The flag map that the tokens of a record produce, one update per field.\<close>

fun bind_tokens :: "field list \<Rightarrow> flagmap \<Rightarrow> flagmap" where
  "bind_tokens [] res = res"
| "bind_tokens (f # fs) res = bind_tokens fs (res(fname f \<mapsto> format_value (fval f)))"

section \<open>Facts about the round trip\<close>

lemma below_ten:
  "(d :: nat) < 10 \<Longrightarrow>
   d = 0 \<or> d = 1 \<or> d = 2 \<or> d = 3 \<or> d = 4 \<or> d = 5 \<or> d = 6 \<or> d = 7 \<or> d = 8 \<or> d = 9"
  by presburger

lemma digit_char: "d < 10 \<Longrightarrow> is_digit (digit d) \<and> (of_char (digit d) :: nat) - 48 = d"
  using below_ten [of d] by (auto simp: digit_def is_digit_def)

lemma FormatUint_digits: "list_all is_digit (FormatUint n)"
proof (induction n rule: FormatUint.induct)
  case (1 n)
  show ?case
  proof (cases "n < 10")
    case True
    then show ?thesis using digit_char [of n] by (subst FormatUint.simps) simp
  next
    case False
    with 1 have "list_all is_digit (FormatUint (n div 10))" by simp
    moreover have "is_digit (digit (n mod 10))" using digit_char [of "n mod 10"] by simp
    ultimately show ?thesis using False by (subst FormatUint.simps) simp
  qed
qed

lemma FormatUint_nonempty: "FormatUint n \<noteq> []"
  by (subst FormatUint.simps) simp

lemma dec_val_snoc: "dec_val (cs @ [c]) = dec_val cs * 10 + (of_char c - 48)"
  by (induction cs) (simp_all add: algebra_simps)

lemma dec_val_FormatUint: "dec_val (FormatUint n) = n"
proof (induction n rule: FormatUint.induct)
  case (1 n)
  show ?case
  proof (cases "n < 10")
    case True
    then show ?thesis using digit_char [of n] by (subst FormatUint.simps) simp
  next
    case False
    with 1 have "dec_val (FormatUint (n div 10)) = n div 10" by simp
    then show ?thesis using False digit_char [of "n mod 10"]
      by (subst FormatUint.simps) (simp add: dec_val_snoc)
  qed
qed

lemma FormatUint_hd: "is_digit (hd (FormatUint n))"
  using FormatUint_digits [of n] FormatUint_nonempty [of n]
  by (cases "FormatUint n") simp_all

lemma is_digit_not_sign: "is_digit c \<Longrightarrow> c \<noteq> CHR ''+'' \<and> c \<noteq> CHR ''-'' \<and> c \<noteq> CHR ''=''"
  by (auto simp: is_digit_def)

lemma int_literal_FormatInt: "int_literal (FormatInt v) = Some v"
proof (cases "v < 0")
  case True
  then show ?thesis
    using FormatUint_digits [of "nat (- v)"] FormatUint_nonempty [of "nat (- v)"]
    by (simp add: int_literal_def FormatInt_def dec_val_FormatUint)
next
  case False
  then show ?thesis
    using FormatUint_digits [of "nat v"] FormatUint_nonempty [of "nat v"]
      is_digit_not_sign [OF FormatUint_hd [of "nat v"]]
    by (simp add: int_literal_def FormatInt_def dec_val_FormatUint)
qed

lemma ParseInt_FormatInt: "ParseInt (FormatInt (sint (w :: 64 word))) = Inr w"
  using ParseInt_literal [OF int_literal_FormatInt [of "sint w"]] sint64_bounds [of w]
  by simp

lemma ParseUint_FormatUint: "ParseUint (FormatUint (unat (w :: 64 word))) = Inr w"
  using ParseUint_raw_digits [OF FormatUint_nonempty FormatUint_digits, of "unat w"]
    unat64_lt [of w]
  by (simp add: ParseUint_def dec_val_FormatUint)

lemma FormatUint_no_minus: "\<not> Contains (FormatUint n) ''-''"
  using FormatUint_digits [of n] is_digit_not_sign
  by (auto simp: Contains_single list_all_iff)

lemma narrow_signed_back:
  fixes w :: "'b::len word"
  assumes "LENGTH('b) \<le> 64"
  shows "(ucast (of_int (sint w) :: 64 word) :: 'b word) = w"
proof -
  have "(of_int (sint w) :: 64 word) = scast w" by simp
  then show ?thesis using assms
    by (intro bit_word_eqI) (auto simp: bit_simps)
qed

lemma narrow_unsigned_back:
  fixes w :: "'b::len word"
  assumes "LENGTH('b) \<le> 64"
  shows "(ucast (of_nat (unat w) :: 64 word) :: 'b word) = w"
proof -
  have "(of_nat (unat w) :: 64 word) = ucast w" by simp
  then show ?thesis using assms
    by (intro bit_word_eqI) (auto simp: bit_simps)
qed

lemma opaque_kind_unstable: "\<not> stable_kind (opaque_kind k)"
  by (cases k) (simp_all add: stable_kind_def)

lemma Kind_String: "Kind v = KString \<Longrightarrow> \<exists>s. v = VString s"
  using opaque_kind_unstable by (cases v) (auto simp: stable_kind_def)

lemma Kind_Bool: "Kind v = KBool \<Longrightarrow> \<exists>b. v = VBool b"
  using opaque_kind_unstable by (cases v) (auto simp: stable_kind_def)

lemma Kind_Int: "Kind v = KInt \<Longrightarrow> \<exists>w. v = VInt w"
  using opaque_kind_unstable by (cases v) (auto simp: stable_kind_def)

lemma Kind_Int8: "Kind v = KInt8 \<Longrightarrow> \<exists>w. v = VInt8 w"
  using opaque_kind_unstable by (cases v) (auto simp: stable_kind_def)

lemma Kind_Int16: "Kind v = KInt16 \<Longrightarrow> \<exists>w. v = VInt16 w"
  using opaque_kind_unstable by (cases v) (auto simp: stable_kind_def)

lemma Kind_Int32: "Kind v = KInt32 \<Longrightarrow> \<exists>w. v = VInt32 w"
  using opaque_kind_unstable by (cases v) (auto simp: stable_kind_def)

lemma Kind_Int64: "Kind v = KInt64 \<Longrightarrow> \<exists>w. v = VInt64 w"
  using opaque_kind_unstable by (cases v) (auto simp: stable_kind_def)

lemma Kind_Uint: "Kind v = KUint \<Longrightarrow> \<exists>w. v = VUint w"
  using opaque_kind_unstable by (cases v) (auto simp: stable_kind_def)

lemma Kind_Uint8: "Kind v = KUint8 \<Longrightarrow> \<exists>w. v = VUint8 w"
  using opaque_kind_unstable by (cases v) (auto simp: stable_kind_def)

lemma Kind_Uint16: "Kind v = KUint16 \<Longrightarrow> \<exists>w. v = VUint16 w"
  using opaque_kind_unstable by (cases v) (auto simp: stable_kind_def)

lemma Kind_Uint32: "Kind v = KUint32 \<Longrightarrow> \<exists>w. v = VUint32 w"
  using opaque_kind_unstable by (cases v) (auto simp: stable_kind_def)

lemma Kind_Uint64: "Kind v = KUint64 \<Longrightarrow> \<exists>w. v = VUint64 w"
  using opaque_kind_unstable by (cases v) (auto simp: stable_kind_def)

lemma Index_first: "c \<notin> set a \<Longrightarrow> Index (a @ c # b) [c] = Some (length a)"
  by (induction a) (auto simp: HasPrefix_def)

lemma token_split:
  assumes "CHR ''='' \<notin> set (fname f)"
  shows "HasPrefix (token f) ''--''"
    and "TrimPrefix (token f) ''--'' = fname f @ ''='' @ format_value (fval f)"
    and "Contains (fname f @ ''='' @ format_value (fval f)) ''=''"
    and "SplitN2 (fname f @ ''='' @ format_value (fval f)) ''='' = [fname f, format_value (fval f)]"
proof -
  show p: "HasPrefix (token f) ''--''" by (simp add: token_def HasPrefix_def)
  then show "TrimPrefix (token f) ''--'' = fname f @ ''='' @ format_value (fval f)"
    by (simp add: TrimPrefix_def token_def)
  show "Contains (fname f @ ''='' @ format_value (fval f)) ''=''"
    by (simp add: Contains_single)
  show "SplitN2 (fname f @ ''='' @ format_value (fval f)) ''='' = [fname f, format_value (fval f)]"
    using Index_first [OF assms, of "format_value (fval f)"] by (simp add: SplitN2_def)
qed

lemma mapArgSlice_loop_tokens:
  assumes "\<forall>f\<in>set fs. CHR ''='' \<notin> set (fname f)"
  shows "mapArgSlice_loop (map token fs) i res = Inr (bind_tokens (drop i fs) res)"
proof (induction "length fs - i" arbitrary: i res)
  case 0
  then show ?case by (subst mapArgSlice_loop.simps) simp
next
  case (Suc d)
  then have lt: "i < length fs" by simp
  then have mem: "fs ! i \<in> set fs" by simp
  with assms have ne: "CHR ''='' \<notin> set (fname (fs ! i))" by blast
  note t = token_split [OF ne]
  have dr: "drop i fs = fs ! i # drop (i + 1) fs" using lt by (simp add: Cons_nth_drop_Suc)
  have "mapArgSlice_loop (map token fs) i res =
      mapArgSlice_loop (map token fs) (i + 1) (res(fname (fs ! i) \<mapsto> format_value (fval (fs ! i))))"
    using lt t by (subst mapArgSlice_loop.simps) (simp add: Let_def)
  also have "\<dots> = Inr (bind_tokens (drop (i + 1) fs) (res(fname (fs ! i) \<mapsto> format_value (fval (fs ! i)))))"
    using Suc.hyps(2) by (intro Suc.hyps(1)) simp
  finally show ?case by (simp add: dr)
qed

lemma bind_tokens_other: "k \<notin> fname ` set fs \<Longrightarrow> bind_tokens fs res k = res k"
  by (induction fs arbitrary: res) simp_all

lemma bind_tokens_lookup:
  "distinct (map fname fs) \<Longrightarrow> f \<in> set fs \<Longrightarrow>
   bind_tokens fs res (fname f) = Some (format_value (fval f))"
proof (induction fs arbitrary: res)
  case Nil
  then show ?case by simp
next
  case (Cons x xs)
  show ?case
  proof (cases "f = x")
    case True
    with Cons.prems(1) show ?thesis by (simp add: bind_tokens_other)
  next
    case False
    with Cons show ?thesis by simp
  qed
qed

lemma mapArgSlice_serialize:
  assumes "\<forall>f\<in>set fs. CHR ''='' \<notin> set (fname f)" and "distinct (map fname fs)"
  shows "\<exists>m. mapArgSlice (serialize fs) = Inr m \<and>
             (\<forall>f\<in>set fs. m (fname f) = Some (format_value (fval f)))"
  using mapArgSlice_loop_tokens [OF assms(1), of 0 Map.empty] bind_tokens_lookup [OF assms(2)]
  by (simp add: mapArgSlice_def serialize_def)

lemma ParseInt_FormatInt_any:
  assumes "- 9223372036854775808 \<le> v" and "v \<le> 9223372036854775807"
  shows "ParseInt (FormatInt v) = Inr (of_int v)"
  using ParseInt_literal [OF int_literal_FormatInt [of v]] assms by simp

lemma ParseUint_FormatUint_any:
  assumes "n < 18446744073709551616"
  shows "ParseUint (FormatUint n) = Inr (of_nat n)"
  using ParseUint_raw_digits [OF FormatUint_nonempty FormatUint_digits, of n] assms
  by (simp add: ParseUint_def dec_val_FormatUint)

lemma signed_back:
  fixes w :: "'b::len word"
  assumes "LENGTH('b) \<le> 64"
  shows "ParseInt (FormatInt (sint w)) = Inr (of_int (sint w))"
    and "sint (of_int (sint w) :: 64 word) = sint w"
proof -
  have "(2 :: int) ^ (LENGTH('b) - 1) \<le> 2 ^ 63"
    using assms by (intro power_increasing) auto
  with sint_ge [of w] sint_lt [of w]
  have r: "- 9223372036854775808 \<le> sint w" "sint w \<le> 9223372036854775807" by simp_all
  from r show "ParseInt (FormatInt (sint w)) = Inr (of_int (sint w))"
    by (rule ParseInt_FormatInt_any)
  from r show "sint (of_int (sint w) :: 64 word) = sint w" by (rule sint_of_int_64)
qed

lemma unsigned_back:
  fixes w :: "'b::len word"
  assumes "LENGTH('b) \<le> 64"
  shows "ParseUint (FormatUint (unat w)) = Inr (of_nat (unat w))"
    and "unat (of_nat (unat w) :: 64 word) = unat w"
proof -
  have "(2 :: nat) ^ LENGTH('b) \<le> 2 ^ 64"
    using assms by (intro power_increasing) auto
  moreover have "unat w < 2 ^ LENGTH('b)" by (rule unsigned_less)
  ultimately have "unat w < 2 ^ 64" by (rule less_le_trans [rotated])
  then have r: "unat w < 18446744073709551616" by simp
  then show "ParseUint (FormatUint (unat w)) = Inr (of_nat (unat w))"
    by (rule ParseUint_FormatUint_any)
  from r show "unat (of_nat (unat w) :: 64 word) = unat w"
    by (simp add: unat_of_nat del: of_nat_unat)
qed

lemma check_signed_back:
  "checkIntOverflow (of_int (sint (a :: 64 word))) KInt"
  "checkIntOverflow (of_int (sint (b :: 8 word))) KInt8"
  "checkIntOverflow (of_int (sint (c :: 16 word))) KInt16"
  "checkIntOverflow (of_int (sint (d :: 32 word))) KInt32"
  "checkIntOverflow (of_int (sint (e :: 64 word))) KInt64"
proof -
  show "checkIntOverflow (of_int (sint a)) KInt" "checkIntOverflow (of_int (sint e)) KInt64"
    using checkIntOverflow_wide by simp_all
  show "checkIntOverflow (of_int (sint b)) KInt8"
    using sint_ge [of b] sint_lt [of b] signed_back(2) [of b]
    by (simp add: checkIntOverflow_def)
  show "checkIntOverflow (of_int (sint c)) KInt16"
    using sint_ge [of c] sint_lt [of c] signed_back(2) [of c]
    by (simp add: checkIntOverflow_def)
  show "checkIntOverflow (of_int (sint d)) KInt32"
    using sint_ge [of d] sint_lt [of d] signed_back(2) [of d]
    by (simp add: checkIntOverflow_def)
qed

lemma check_unsigned_back:
  "checkUIntOverflow (of_nat (unat (a :: 64 word))) KUint"
  "checkUIntOverflow (of_nat (unat (b :: 8 word))) KUint8"
  "checkUIntOverflow (of_nat (unat (c :: 16 word))) KUint16"
  "checkUIntOverflow (of_nat (unat (d :: 32 word))) KUint32"
  "checkUIntOverflow (of_nat (unat (e :: 64 word))) KUint64"
proof -
  show "checkUIntOverflow (of_nat (unat a)) KUint" "checkUIntOverflow (of_nat (unat e)) KUint64"
    using checkUIntOverflow_wide by simp_all
  show "checkUIntOverflow (of_nat (unat b)) KUint8"
    using unsigned_less [of b, where 'a = nat] unsigned_back(2) [of b]
    by (simp add: checkUIntOverflow_def word_less_nat_alt del: of_nat_unat)
  show "checkUIntOverflow (of_nat (unat c)) KUint16"
    using unsigned_less [of c, where 'a = nat] unsigned_back(2) [of c]
    by (simp add: checkUIntOverflow_def word_less_nat_alt del: of_nat_unat)
  show "checkUIntOverflow (of_nat (unat d)) KUint32"
    using unsigned_less [of d, where 'a = nat] unsigned_back(2) [of d]
    by (simp add: checkUIntOverflow_def word_less_nat_alt del: of_nat_unat)
qed

lemma wide_signed_back: "(of_int (sint (w :: 64 word)) :: 64 word) = w"
  by simp

lemma wide_unsigned_back: "(of_nat (unat (w :: 64 word)) :: 64 word) = w"
  by simp

lemma bindField_serialized:
  assumes m: "m (fname f) = Some (format_value (fval f))"
    and ex: "exported f"
    and st: "stable_kind (Kind (fval f))"
    and shape: "fname g = fname f" "exported g = exported f" "Kind (fval g) = Kind (fval f)"
  shows "bindField lib m g = Next f"
proof -
  obtain nm e v where f: "f = StructField nm e v" by (cases f)
  obtain nm' e' v' where g: "g = StructField nm' e' v'" by (cases g)
  from f g ex shape have eq: "e = True" "e' = True" "nm' = nm" "Kind v' = Kind v" by simp_all
  from m f have look: "m nm = Some (format_value v)" by simp
  then have raw: "at_key m nm = format_value v" by (simp add: at_key_def)
  show ?thesis
  proof (cases v)
    case (VString s)
    with eq Kind_String [of v'] obtain s' where "v' = VString s'" by auto
    with VString f g eq raw show ?thesis by (simp add: bindField_def SetString_def)
  next
    case (VBool b)
    with eq Kind_Bool [of v'] obtain b' where "v' = VBool b'" by auto
    with VBool f g eq look show ?thesis
      by (cases b) (simp_all add: bindField_def SetBool_def fold_eq_def)
  next
    case (VInt w)
    with eq Kind_Int [of v'] obtain w' where v': "v' = VInt w'" by auto
    have p: "ParseInt (format_value v) = Inr (of_int (sint w))"
      using VInt signed_back(1) [of w] by simp
    have c: "checkIntOverflow (of_int (sint w)) KInt" by (rule check_signed_back)
    have "bindField lib m g = SetInt (of_int (sint w)) g"
      using g v' eq raw p c by (simp add: bindField_signed del: of_int_sint)
    also have "\<dots> = Next f"
      using f g v' eq VInt wide_signed_back [of w]
      by (simp add: SetInt_def del: of_int_sint)
    finally show ?thesis .
  next
    case (VInt8 w)
    with eq Kind_Int8 [of v'] obtain w' where v': "v' = VInt8 w'" by auto
    have p: "ParseInt (format_value v) = Inr (of_int (sint w))"
      using VInt8 signed_back(1) [of w] by simp
    have c: "checkIntOverflow (of_int (sint w)) KInt8" by (rule check_signed_back)
    have "bindField lib m g = SetInt (of_int (sint w)) g"
      using g v' eq raw p c by (simp add: bindField_signed del: of_int_sint)
    also have "\<dots> = Next f"
      using f g v' eq VInt8 narrow_signed_back [of w]
      by (simp add: SetInt_def del: of_int_sint)
    finally show ?thesis .
  next
    case (VInt16 w)
    with eq Kind_Int16 [of v'] obtain w' where v': "v' = VInt16 w'" by auto
    have p: "ParseInt (format_value v) = Inr (of_int (sint w))"
      using VInt16 signed_back(1) [of w] by simp
    have c: "checkIntOverflow (of_int (sint w)) KInt16" by (rule check_signed_back)
    have "bindField lib m g = SetInt (of_int (sint w)) g"
      using g v' eq raw p c by (simp add: bindField_signed del: of_int_sint)
    also have "\<dots> = Next f"
      using f g v' eq VInt16 narrow_signed_back [of w]
      by (simp add: SetInt_def del: of_int_sint)
    finally show ?thesis .
  next
    case (VInt32 w)
    with eq Kind_Int32 [of v'] obtain w' where v': "v' = VInt32 w'" by auto
    have p: "ParseInt (format_value v) = Inr (of_int (sint w))"
      using VInt32 signed_back(1) [of w] by simp
    have c: "checkIntOverflow (of_int (sint w)) KInt32" by (rule check_signed_back)
    have "bindField lib m g = SetInt (of_int (sint w)) g"
      using g v' eq raw p c by (simp add: bindField_signed del: of_int_sint)
    also have "\<dots> = Next f"
      using f g v' eq VInt32 narrow_signed_back [of w]
      by (simp add: SetInt_def del: of_int_sint)
    finally show ?thesis .
  next
    case (VInt64 w)
    with eq Kind_Int64 [of v'] obtain w' where v': "v' = VInt64 w'" by auto
    have p: "ParseInt (format_value v) = Inr (of_int (sint w))"
      using VInt64 signed_back(1) [of w] by simp
    have c: "checkIntOverflow (of_int (sint w)) KInt64" by (rule check_signed_back)
    have "bindField lib m g = SetInt (of_int (sint w)) g"
      using g v' eq raw p c by (simp add: bindField_signed del: of_int_sint)
    also have "\<dots> = Next f"
      using f g v' eq VInt64 wide_signed_back [of w]
      by (simp add: SetInt_def del: of_int_sint)
    finally show ?thesis .
  next
    case (VUint w)
    with eq Kind_Uint [of v'] obtain w' where v': "v' = VUint w'" by auto
    have p: "ParseUint (format_value v) = Inr (of_nat (unat w))"
      using VUint unsigned_back(1) [of w] by (simp del: of_nat_unat)
    have nm: "\<not> Contains (format_value v) ''-''"
      using VUint FormatUint_no_minus by simp
    have c: "checkUIntOverflow (of_nat (unat w)) KUint" by (rule check_unsigned_back)
    have "bindField lib m g = SetUint (of_nat (unat w)) g"
      using g v' eq raw p c nm by (simp add: bindField_unsigned del: of_nat_unat)
    also have "\<dots> = Next f"
      using f g v' eq VUint wide_unsigned_back [of w]
      by (simp add: SetUint_def del: of_nat_unat)
    finally show ?thesis .
  next
    case (VUint8 w)
    with eq Kind_Uint8 [of v'] obtain w' where v': "v' = VUint8 w'" by auto
    have p: "ParseUint (format_value v) = Inr (of_nat (unat w))"
      using VUint8 unsigned_back(1) [of w] by (simp del: of_nat_unat)
    have nm: "\<not> Contains (format_value v) ''-''"
      using VUint8 FormatUint_no_minus by simp
    have c: "checkUIntOverflow (of_nat (unat w)) KUint8" by (rule check_unsigned_back)
    have "bindField lib m g = SetUint (of_nat (unat w)) g"
      using g v' eq raw p c nm by (simp add: bindField_unsigned del: of_nat_unat)
    also have "\<dots> = Next f"
      using f g v' eq VUint8 narrow_unsigned_back [of w]
      by (simp add: SetUint_def del: of_nat_unat)
    finally show ?thesis .
  next
    case (VUint16 w)
    with eq Kind_Uint16 [of v'] obtain w' where v': "v' = VUint16 w'" by auto
    have p: "ParseUint (format_value v) = Inr (of_nat (unat w))"
      using VUint16 unsigned_back(1) [of w] by (simp del: of_nat_unat)
    have nm: "\<not> Contains (format_value v) ''-''"
      using VUint16 FormatUint_no_minus by simp
    have c: "checkUIntOverflow (of_nat (unat w)) KUint16" by (rule check_unsigned_back)
    have "bindField lib m g = SetUint (of_nat (unat w)) g"
      using g v' eq raw p c nm by (simp add: bindField_unsigned del: of_nat_unat)
    also have "\<dots> = Next f"
      using f g v' eq VUint16 narrow_unsigned_back [of w]
      by (simp add: SetUint_def del: of_nat_unat)
    finally show ?thesis .
  next
    case (VUint32 w)
    with eq Kind_Uint32 [of v'] obtain w' where v': "v' = VUint32 w'" by auto
    have p: "ParseUint (format_value v) = Inr (of_nat (unat w))"
      using VUint32 unsigned_back(1) [of w] by (simp del: of_nat_unat)
    have nm: "\<not> Contains (format_value v) ''-''"
      using VUint32 FormatUint_no_minus by simp
    have c: "checkUIntOverflow (of_nat (unat w)) KUint32" by (rule check_unsigned_back)
    have "bindField lib m g = SetUint (of_nat (unat w)) g"
      using g v' eq raw p c nm by (simp add: bindField_unsigned del: of_nat_unat)
    also have "\<dots> = Next f"
      using f g v' eq VUint32 narrow_unsigned_back [of w]
      by (simp add: SetUint_def del: of_nat_unat)
    finally show ?thesis .
  next
    case (VUint64 w)
    with eq Kind_Uint64 [of v'] obtain w' where v': "v' = VUint64 w'" by auto
    have p: "ParseUint (format_value v) = Inr (of_nat (unat w))"
      using VUint64 unsigned_back(1) [of w] by (simp del: of_nat_unat)
    have nm: "\<not> Contains (format_value v) ''-''"
      using VUint64 FormatUint_no_minus by simp
    have c: "checkUIntOverflow (of_nat (unat w)) KUint64" by (rule check_unsigned_back)
    have "bindField lib m g = SetUint (of_nat (unat w)) g"
      using g v' eq raw p c nm by (simp add: bindField_unsigned del: of_nat_unat)
    also have "\<dots> = Next f"
      using f g v' eq VUint64 wide_unsigned_back [of w]
      by (simp add: SetUint_def del: of_nat_unat)
    finally show ?thesis .
  next
    case (VOther opq)
    with st f opaque_kind_unstable show ?thesis by simp
  qed (use st f in \<open>simp_all add: stable_kind_def\<close>)
qed

lemma SetString_shape:
  "SetString x g = Next f \<Longrightarrow>
   fname f = fname g \<and> exported f = exported g \<and> Kind (fval f) = Kind (fval g)"
  by (auto simp: SetString_def split: if_splits gval.splits)

lemma SetBool_shape:
  "SetBool x g = Next f \<Longrightarrow>
   fname f = fname g \<and> exported f = exported g \<and> Kind (fval f) = Kind (fval g)"
  by (auto simp: SetBool_def split: if_splits gval.splits)

lemma SetInt_shape:
  "SetInt x g = Next f \<Longrightarrow>
   fname f = fname g \<and> exported f = exported g \<and> Kind (fval f) = Kind (fval g)"
  by (auto simp: SetInt_def split: if_splits gval.splits)

lemma SetUint_shape:
  "SetUint x g = Next f \<Longrightarrow>
   fname f = fname g \<and> exported f = exported g \<and> Kind (fval f) = Kind (fval g)"
  by (auto simp: SetUint_def split: if_splits gval.splits)

lemma SetFloat_shape:
  "SetFloat lib x g = Next f \<Longrightarrow>
   fname f = fname g \<and> exported f = exported g \<and> Kind (fval f) = Kind (fval g)"
  by (auto simp: SetFloat_def split: if_splits gval.splits)

lemma bindField_shape:
  assumes "bindField lib args g = Next f"
  shows "fname f = fname g \<and> exported f = exported g \<and> Kind (fval f) = Kind (fval g)"
  using assms SetString_shape SetBool_shape SetInt_shape SetUint_shape SetFloat_shape
  unfolding bindField_def Let_def
  by (auto split: if_splits option.splits sum.splits)

section \<open>Facts about stores that succeed\<close>

text \<open>The 64-bit value that a field of kind \<open>int\<close>, \<open>int64\<close>, \<open>uint\<close> or \<open>uint64\<close> holds.\<close>

fun word64_value :: "gval \<Rightarrow> 64 word" where
  "word64_value (VInt w) = w"
| "word64_value (VInt64 w) = w"
| "word64_value (VUint w) = w"
| "word64_value (VUint64 w) = w"
| "word64_value _ = 0"

lemma Parse_stores:
  assumes tok: "mapArgSlice rest = Inr args" and i: "i < length fs"
    and reach: "\<forall>j<i. \<exists>g. bindField lib args (fs ! j) = Next g"
    and after: "\<forall>j. i < j \<and> j < length fs \<longrightarrow> (\<exists>g. bindField lib args (fs ! j) = Next g)"
    and b: "bindField lib args (fs ! i) = Next g"
  shows "\<exists>fs'. Parse lib (VPtr (Some (VStruct fs))) (prog # rest) =
           Returns (VPtr (Some (VStruct fs'))) None \<and>
           length fs' = length fs \<and> fs' ! i = g"
proof -
  have "\<exists>h. bindField lib args (fs ! j) = Next h" if "j < length fs" for j
  proof (cases "j = i")
    case True
    with b show ?thesis by simp
  next
    case False
    with that reach after show ?thesis by (cases "j < i") auto
  qed
  then have "Parse lib (VPtr (Some (VStruct fs))) (prog # rest) =
      Returns (VPtr (Some (VStruct (map (bound_field lib args) fs)))) None"
    by (intro Parse_binds_all [OF tok]) simp
  moreover have "map (bound_field lib args) fs ! i = g"
    using i b by (simp add: bound_field_def)
  ultimately show ?thesis by (intro exI [of _ "map (bound_field lib args) fs"]) simp
qed

lemma SetInt_wide:
  assumes "exported f" and "Kind (fval f) = KInt \<or> Kind (fval f) = KInt64"
  shows "\<exists>x. SetInt n f = Next (StructField (fname f) True x) \<and>
             Kind x = Kind (fval f) \<and> word64_value x = n"
  using assms Kind_Int [of "fval f"] Kind_Int64 [of "fval f"]
  by (auto simp: SetInt_def)

lemma SetUint_wide:
  assumes "exported f" and "Kind (fval f) = KUint \<or> Kind (fval f) = KUint64"
  shows "\<exists>x. SetUint n f = Next (StructField (fname f) True x) \<and>
             Kind x = Kind (fval f) \<and> word64_value x = n"
  using assms Kind_Uint [of "fval f"] Kind_Uint64 [of "fval f"]
  by (auto simp: SetUint_def)

section \<open>The claims\<close>

text \<open>
  C1, on the code. When the last argument is a long flag without \<open>=\<close>, the tokenizer
  reaches it (no earlier flag takes it as its value, since it starts with a dash) and
  reads \<open>args[i+1]\<close> past the end of the slice: \<open>mapArgSlice\<close> panics with an index out
  of range, and so does \<open>Parse\<close> on any struct. No flag is bound to the empty value.
\<close>

theorem final_long_flag_panics:
  assumes "args \<noteq> []" and "HasPrefix (last args) ''--''"
    and "\<not> Contains (TrimPrefix (last args) ''--'') ''=''"
  shows "mapArgSlice args = Inl (IndexOutOfRange (length args) (length args)) \<and>
         Parse lib (VPtr (Some (VStruct fs))) (prog # args) =
           Panics (IndexOutOfRange (length args) (length args))"
proof -
  have "mapArgSlice args = Inl (IndexOutOfRange (length args) (length args))"
    unfolding mapArgSlice_def using assms
    by (intro final_long_flag_panics_from) simp_all
  then show ?thesis by (simp add: Parse_struct)
qed

theorem final_long_flag_panics_witness:
  "mapArgSlice [''--flag''] = Inl (IndexOutOfRange 1 1) \<and>
   Parse nofloats (VPtr (Some (VStruct [StructField ''Flag'' True (VBool False)])))
     [''prog'', ''--flag''] = Panics (IndexOutOfRange 1 1)"
  using final_long_flag_panics [of "[''--flag'']" nofloats
      "[StructField ''Flag'' True (VBool False)]" "''prog''"]
  by (simp add: HasPrefix_def TrimPrefix_def Contains_def)

text \<open>
  C2, on the code. The token \<open>-abc\<close> puts the keys \<open>a\<close>, \<open>b\<close>, \<open>c\<close> into the flag map with
  the empty value, and the boolean case stores \<open>EqualFold(value, "true")\<close>, which is
  \<open>false\<close> for the empty value. Against the fields \<open>a\<close>, \<open>b\<close>, \<open>c\<close> of the claim, which Go
  does not export, the first store panics in \<open>reflect\<close>; against exported fields \<open>A\<close>,
  \<open>B\<close>, \<open>C\<close> and the token \<open>-ABC\<close>, \<open>Parse\<close> succeeds and all three fields are \<open>false\<close>,
  also when they were \<open>true\<close> before.
\<close>

theorem short_flags_bind_false:
  "Parse nofloats
     (VPtr (Some (VStruct [StructField ''a'' False (VBool False),
                           StructField ''b'' False (VBool False),
                           StructField ''c'' False (VBool False)])))
     [''prog'', ''-abc'']
   = Panics (UnexportedField ''SetBool'') \<and>
   Parse nofloats
     (VPtr (Some (VStruct [StructField ''A'' True (VBool True),
                           StructField ''B'' True (VBool True),
                           StructField ''C'' True (VBool True)])))
     [''prog'', ''-ABC'']
   = Returns
     (VPtr (Some (VStruct [StructField ''A'' True (VBool False),
                           StructField ''B'' True (VBool False),
                           StructField ''C'' True (VBool False)])))
     None"
  by code_simp

text \<open>
  C3, as the code has it. A boolean field whose name is not a key of the flag map is
  not written: the loop body goes on with the field as it is, and whatever \<open>Parse\<close>
  returns, the field has the value it had before the call. It is \<open>false\<close> after the call
  only if it was \<open>false\<close> before. The counterexample is a field that holds \<open>true\<close> before
  a call without arguments and still holds \<open>true\<close> after it.
\<close>

theorem absent_bool_left_unchanged:
  assumes "Parse lib (VPtr (Some (VStruct fs))) osArgs = Returns (VPtr (Some (VStruct fs'))) err"
    and "mapArgSlice (drop 1 osArgs) = Inr args"
    and "k < length fs"
    and "Kind (fval (fs ! k)) = KBool"
    and "args (fname (fs ! k)) = None"
  shows "bindField lib args (fs ! k) = Next (fs ! k) \<and> fs' ! k = fs ! k"
proof -
  have b: "bindField lib args (fs ! k) = Next (fs ! k)"
    using assms(4,5) by (simp add: bindField_def)
  from Parse_returns_struct [OF assms(1)] assms(2)
  have run: "Parse_loop lib args fs 0 = Inr (fs', err)" by auto
  note fr = Parse_loop_frame [OF run]
  have "fs' ! k = fs ! k"
  proof (cases err)
    case None
    with fr assms(3) have "bindField lib args (fs ! k) = Next (fs' ! k)" by simp
    with b show ?thesis by simp
  next
    case (Some e)
    with fr obtain m where m:
      "\<forall>j. 0 \<le> j \<and> j < m \<longrightarrow> bindField lib args (fs ! j) = Next (fs' ! j)"
      "\<forall>j. m \<le> j \<and> j < length fs \<longrightarrow> fs' ! j = fs ! j"
      by auto
    show ?thesis
    proof (cases "k < m")
      case True
      with m(1) have "bindField lib args (fs ! k) = Next (fs' ! k)" by simp
      with b show ?thesis by simp
    next
      case False
      with m(2) assms(3) show ?thesis by simp
    qed
  qed
  with b show ?thesis by simp
qed

theorem absent_bool_left_unchanged_witness:
  "Parse nofloats
      (VPtr (Some (VStruct [StructField ''Name'' True (VString []),
                            StructField ''Verbose'' True (VBool True)])))
      [''prog'', ''--Name=x'']
    = Returns
      (VPtr (Some (VStruct [StructField ''Name'' True (VString ''x''),
                            StructField ''Verbose'' True (VBool True)]))) None \<and>
   bindField nofloats [''Name'' \<mapsto> ''x'']
     ([StructField ''Name'' True (VString []), StructField ''Verbose'' True (VBool True)] ! 1)
     = Next ([StructField ''Name'' True (VString []), StructField ''Verbose'' True (VBool True)] ! 1) \<and>
   [StructField ''Name'' True (VString ''x''), StructField ''Verbose'' True (VBool True)] ! 1
     = [StructField ''Name'' True (VString []), StructField ''Verbose'' True (VBool True)] ! 1"
proof -
  have run: "Parse nofloats
      (VPtr (Some (VStruct [StructField ''Name'' True (VString []),
                            StructField ''Verbose'' True (VBool True)])))
      [''prog'', ''--Name=x'']
    = Returns
      (VPtr (Some (VStruct [StructField ''Name'' True (VString ''x''),
                            StructField ''Verbose'' True (VBool True)]))) None"
    by code_simp
  have tok: "mapArgSlice (drop 1 [''prog'', ''--Name=x'']) = Inr [''Name'' \<mapsto> ''x'']"
    by (simp add: mapArgSlice_def mapArgSlice_loop.simps HasPrefix_def TrimPrefix_def
        Contains_def SplitN2_def)
  have "bindField nofloats [''Name'' \<mapsto> ''x'']
     ([StructField ''Name'' True (VString []), StructField ''Verbose'' True (VBool True)] ! 1)
     = Next ([StructField ''Name'' True (VString []), StructField ''Verbose'' True (VBool True)] ! 1) \<and>
   [StructField ''Name'' True (VString ''x''), StructField ''Verbose'' True (VBool True)] ! 1
     = [StructField ''Name'' True (VString []), StructField ''Verbose'' True (VBool True)] ! 1"
    by (rule absent_bool_left_unchanged [OF run tok]) simp_all
  with run show ?thesis by (rule conjI)
qed

theorem absent_bool_counterexample:
  "Parse nofloats (VPtr (Some (VStruct [StructField ''Verbose'' True (VBool True)]))) [''prog'']
     = Returns (VPtr (Some (VStruct [StructField ''Verbose'' True (VBool True)]))) None"
  by code_simp

text \<open>
  C4, on the code. The lower bound of \<open>checkFloatOverflow\<close> is the smallest positive
  value of the width, so the check fails for every finite value below it: for zero and
  for every negative number, \<open>-1.5\<close> among them. With a \<open>ParseFloat\<close> that reads
  \<open>-1.5\<close> as that number, \<open>Parse\<close> returns the overflow error for \<open>--F=-1.5\<close> against a
  \<open>float64\<close> field and leaves the field as it was.
\<close>

theorem float_check_rejects_below_smallest:
  "(x < SmallestNonzeroFloat32 \<longrightarrow> \<not> checkFloatOverflow (Finite x) KFloat32) \<and>
   (x < SmallestNonzeroFloat64 \<longrightarrow> \<not> checkFloatOverflow (Finite x) KFloat64) \<and>
   \<not> checkFloatOverflow (Finite 0) KFloat32 \<and> \<not> checkFloatOverflow (Finite 0) KFloat64 \<and>
   \<not> checkFloatOverflow (Finite (- 3 / 2)) KFloat32 \<and>
   \<not> checkFloatOverflow (Finite (- 3 / 2)) KFloat64 \<and>
   (ParseFloat lib ''-1.5'' = Inr (Finite (- 3 / 2)) \<longrightarrow>
      Parse lib (VPtr (Some (VStruct [StructField ''F'' True (VFloat64 (Finite 0))])))
        [''prog'', ''--F=-1.5'']
      = Returns (VPtr (Some (VStruct [StructField ''F'' True (VFloat64 (Finite 0))])))
          (Some (ErrOverflowFloat (Finite (- 3 / 2)) KFloat64)))"
proof -
  have s32: "(0 :: rat) < SmallestNonzeroFloat32" by (simp add: SmallestNonzeroFloat32_def)
  have s64: "(0 :: rat) < SmallestNonzeroFloat64" by (simp add: SmallestNonzeroFloat64_def)
  have a: "\<not> checkFloatOverflow (Finite x) KFloat32" if "x < SmallestNonzeroFloat32" for x
    using that by (simp add: checkFloatOverflow_def)
  have b: "\<not> checkFloatOverflow (Finite x) KFloat64" if "x < SmallestNonzeroFloat64" for x
    using that by (simp add: checkFloatOverflow_def)
  have n32: "(- 3 / 2 :: rat) < SmallestNonzeroFloat32" using s32 by simp
  have n64: "(- 3 / 2 :: rat) < SmallestNonzeroFloat64" using s64 by simp
  have tok: "mapArgSlice [''--F=-1.5''] = Inr [''F'' \<mapsto> ''-1.5'']"
    by (simp add: mapArgSlice_def mapArgSlice_loop.simps HasPrefix_def TrimPrefix_def
        Contains_def SplitN2_def)
  have p: "Parse lib (VPtr (Some (VStruct [StructField ''F'' True (VFloat64 (Finite 0))])))
        [''prog'', ''--F=-1.5'']
      = Returns (VPtr (Some (VStruct [StructField ''F'' True (VFloat64 (Finite 0))])))
          (Some (ErrOverflowFloat (Finite (- 3 / 2)) KFloat64))"
    if "ParseFloat lib ''-1.5'' = Inr (Finite (- 3 / 2))"
    using that tok b [OF n64]
    by (simp add: Parse_struct Parse_loop.simps bindField_def at_key_def)
  from a b a [OF s32] b [OF s64] a [OF n32] b [OF n64] p show ?thesis by blast
qed

theorem float_check_rejects_below_smallest_witness:
  "Parse \<lparr>ParseFloat = (\<lambda>s. Inr (Finite (- 3 / 2))), to_float32 = (\<lambda>x. x)\<rparr>
      (VPtr (Some (VStruct [StructField ''F'' True (VFloat64 (Finite 0))])))
      [''prog'', ''--F=-1.5'']
    = Returns (VPtr (Some (VStruct [StructField ''F'' True (VFloat64 (Finite 0))])))
        (Some (ErrOverflowFloat (Finite (- 3 / 2)) KFloat64))"
  using float_check_rejects_below_smallest
    [of 0 "\<lparr>ParseFloat = (\<lambda>s. Inr (Finite (- 3 / 2))), to_float32 = (\<lambda>x. x)\<rparr>"]
  by simp

text \<open>
  C5. When the loop of \<open>Parse\<close> reaches an unsigned-integer field (every earlier field
  was bound) whose raw value contains the byte \<open>-\<close>, \<open>Parse\<close> returns the underflow
  error for that raw value and kind, whatever \<open>ParseUint\<close> would make of the text, and
  the field keeps its value. The witness is \<open>--n=-5\<close> against a \<open>uint32\<close> field \<open>n\<close>.
\<close>

theorem unsigned_minus_is_underflow:
  assumes "mapArgSlice rest = Inr args"
    and "k < length fs"
    and "Kind (fval (fs ! k)) = KUint \<or> Kind (fval (fs ! k)) = KUint8 \<or>
         Kind (fval (fs ! k)) = KUint16 \<or> Kind (fval (fs ! k)) = KUint32 \<or>
         Kind (fval (fs ! k)) = KUint64"
    and "CHR ''-'' \<in> set (at_key args (fname (fs ! k)))"
    and "\<forall>j<k. \<exists>g. bindField lib args (fs ! j) = Next g"
  shows "\<exists>fs'. Parse lib (VPtr (Some (VStruct fs))) (prog # rest) =
           Returns (VPtr (Some (VStruct fs')))
             (Some (ErrUnderflow (at_key args (fname (fs ! k))) (Kind (fval (fs ! k))))) \<and>
           length fs' = length fs \<and> fs' ! k = fs ! k"
proof -
  let ?e = "ErrUnderflow (at_key args (fname (fs ! k))) (Kind (fval (fs ! k)))"
  have "bindField lib args (fs ! k) = Fail ?e"
    using assms(3,4) by (simp add: bindField_unsigned Contains_single)
  from Parse_loop_fails_at [OF assms(2) _ _ this, of 0] assms(5)
  obtain fs' where "Parse_loop lib args fs 0 = Inr (fs', Some ?e)" "length fs' = length fs"
    "\<forall>j. k \<le> j \<and> j < length fs \<longrightarrow> fs' ! j = fs ! j"
    by auto
  with assms(1,2) show ?thesis by (auto simp: Parse_struct)
qed

theorem unsigned_minus_is_underflow_witness:
  "Parse nofloats (VPtr (Some (VStruct [StructField ''n'' False (VUint32 0)]))) [''prog'', ''--n=-5'']
     = Returns (VPtr (Some (VStruct [StructField ''n'' False (VUint32 0)])))
         (Some (ErrUnderflow ''-5'' KUint32)) \<and>
   (\<exists>fs'. Parse nofloats
       (VPtr (Some (VStruct [StructField ''Name'' True (VString []),
                             StructField ''Port'' True (VUint16 0)])))
       [''prog'', ''--Name=x'', ''--Port=80-80'']
     = Returns (VPtr (Some (VStruct fs'))) (Some (ErrUnderflow ''80-80'' KUint16)) \<and>
     length fs' = 2 \<and> fs' ! 1 = StructField ''Port'' True (VUint16 0))"
proof -
  have t1: "mapArgSlice [''--n=-5''] = Inr [''n'' \<mapsto> ''-5'']"
    by (simp add: mapArgSlice_def mapArgSlice_loop.simps HasPrefix_def TrimPrefix_def
        Contains_def SplitN2_def)
  from unsigned_minus_is_underflow [OF t1, of 0 "[StructField ''n'' False (VUint32 0)]"
      nofloats "''prog''"]
  obtain fs' where r: "Parse nofloats (VPtr (Some (VStruct [StructField ''n'' False (VUint32 0)])))
       [''prog'', ''--n=-5'']
     = Returns (VPtr (Some (VStruct fs'))) (Some (ErrUnderflow ''-5'' KUint32))"
     "length fs' = 1" "fs' ! 0 = StructField ''n'' False (VUint32 0)"
    by (auto simp: at_key_def)
  from r(2,3) have "fs' = [StructField ''n'' False (VUint32 0)]"
    by (cases fs') auto
  with r(1) have one: "Parse nofloats (VPtr (Some (VStruct [StructField ''n'' False (VUint32 0)])))
       [''prog'', ''--n=-5'']
     = Returns (VPtr (Some (VStruct [StructField ''n'' False (VUint32 0)])))
         (Some (ErrUnderflow ''-5'' KUint32))" by simp
  have t2: "mapArgSlice [''--Name=x'', ''--Port=80-80'']
      = Inr [''Name'' \<mapsto> ''x'', ''Port'' \<mapsto> ''80-80'']"
    by (simp add: mapArgSlice_def mapArgSlice_loop.simps HasPrefix_def TrimPrefix_def
        Contains_def SplitN2_def)
  have two: "\<exists>fs'. Parse nofloats
       (VPtr (Some (VStruct [StructField ''Name'' True (VString []),
                             StructField ''Port'' True (VUint16 0)])))
       [''prog'', ''--Name=x'', ''--Port=80-80'']
     = Returns (VPtr (Some (VStruct fs'))) (Some (ErrUnderflow ''80-80'' KUint16)) \<and>
     length fs' = 2 \<and> fs' ! 1 = StructField ''Port'' True (VUint16 0)"
    using unsigned_minus_is_underflow [OF t2, of 1
        "[StructField ''Name'' True (VString []), StructField ''Port'' True (VUint16 0)]"
        nofloats "''prog''"]
    by (auto simp: at_key_def bindField_def SetString_def)
  from one two show ?thesis by (rule conjI)
qed

text \<open>
  C6, as the code has it. When the loop of \<open>Parse\<close> reaches a signed-integer field of
  width \<open>w\<close>, the raw value is read as a base-10 integer of 64 bits: a text that is no
  integer literal, or whose value is outside 64 bits, makes \<open>Parse\<close> return the parse
  error of \<open>ParseInt\<close> and leaves the field as it was. A literal of value \<open>v\<close> outside
  \<open>[-2^(w-1), 2^(w-1)-1]\<close> makes \<open>Parse\<close> return the overflow error, the field unchanged.
  A value inside is handed to the setter \<open>SetInt\<close>. On an exported field the setter
  stores it without loss: every result that \<open>Parse\<close> returns has the field at \<open>v\<close>, and
  when the fields after it bind too, \<open>Parse\<close> returns without error, the field at \<open>v\<close>.
  On a field that is not exported the setter panics, and so does \<open>Parse\<close>: nothing is
  assigned.
\<close>

theorem signed_field_binding:
  assumes tok: "mapArgSlice rest = Inr args" and k: "k < length fs"
    and kind: "Kind (fval (fs ! k)) = KInt \<or> Kind (fval (fs ! k)) = KInt8 \<or>
         Kind (fval (fs ! k)) = KInt16 \<or> Kind (fval (fs ! k)) = KInt32 \<or>
         Kind (fval (fs ! k)) = KInt64"
    and reach: "\<forall>j<k. \<exists>g. bindField lib args (fs ! j) = Next g"
  shows
    "case int_literal (at_key args (fname (fs ! k))) of
       None \<Rightarrow>
         (\<exists>fs' c. Parse lib (VPtr (Some (VStruct fs))) (prog # rest) =
            Returns (VPtr (Some (VStruct fs')))
              (Some (NumError ''ParseInt'' (at_key args (fname (fs ! k))) c)) \<and>
            length fs' = length fs \<and> fs' ! k = fs ! k)
     | Some v \<Rightarrow>
         if v < - 9223372036854775808 \<or> 9223372036854775807 < v then
           (\<exists>fs'. Parse lib (VPtr (Some (VStruct fs))) (prog # rest) =
              Returns (VPtr (Some (VStruct fs')))
                (Some (NumError ''ParseInt'' (at_key args (fname (fs ! k))) ErrRange)) \<and>
              length fs' = length fs \<and> fs' ! k = fs ! k)
         else if v < - (2 ^ (int_bits (Kind (fval (fs ! k))) - 1)) \<or>
                 2 ^ (int_bits (Kind (fval (fs ! k))) - 1) - 1 < v then
           (\<exists>fs'. Parse lib (VPtr (Some (VStruct fs))) (prog # rest) =
              Returns (VPtr (Some (VStruct fs')))
                (Some (ErrOverflowInt (of_int v) (Kind (fval (fs ! k))))) \<and>
              length fs' = length fs \<and> fs' ! k = fs ! k)
         else
           bindField lib args (fs ! k) = SetInt (of_int v) (fs ! k) \<and>
           (exported (fs ! k) \<longrightarrow>
              (\<exists>x. SetInt (of_int v) (fs ! k) = Next (StructField (fname (fs ! k)) True x) \<and>
                   Kind x = Kind (fval (fs ! k)) \<and> signed_value x = v \<and>
                   (\<forall>fs' err. Parse lib (VPtr (Some (VStruct fs))) (prog # rest) =
                        Returns (VPtr (Some (VStruct fs'))) err \<longrightarrow>
                      fs' ! k = StructField (fname (fs ! k)) True x) \<and>
                   ((\<forall>j. k < j \<and> j < length fs \<longrightarrow>
                        (\<exists>g. bindField lib args (fs ! j) = Next g)) \<longrightarrow>
                      (\<exists>fs'. Parse lib (VPtr (Some (VStruct fs))) (prog # rest) =
                           Returns (VPtr (Some (VStruct fs'))) None \<and>
                         length fs' = length fs \<and>
                         fs' ! k = StructField (fname (fs ! k)) True x)))) \<and>
           (\<not> exported (fs ! k) \<longrightarrow>
              Parse lib (VPtr (Some (VStruct fs))) (prog # rest) =
                Panics (UnexportedField ''SetInt''))"
proof (cases "int_literal (at_key args (fname (fs ! k)))")
  case None
  from ParseInt_non_literal [OF None] obtain c where
    "ParseInt (at_key args (fname (fs ! k))) = Inl (NumError ''ParseInt'' (at_key args (fname (fs ! k))) c)"
    by blast
  then have "bindField lib args (fs ! k) = Fail (NumError ''ParseInt'' (at_key args (fname (fs ! k))) c)"
    using kind by (simp add: bindField_signed)
  from Parse_fails_at [OF tok k reach this, of prog] None show ?thesis by auto
next
  case (Some v)
  let ?f = "fs ! k"
  let ?K = "Kind (fval ?f)"
  note lit = ParseInt_literal [OF Some]
  show ?thesis
  proof (cases "v < - 9223372036854775808 \<or> 9223372036854775807 < v")
    case True
    with lit have "bindField lib args ?f = Fail (NumError ''ParseInt'' (at_key args (fname ?f)) ErrRange)"
      using kind by (auto simp: bindField_signed)
    from Parse_fails_at [OF tok k reach this, of prog] Some True show ?thesis by auto
  next
    case in64: False
    then have p: "ParseInt (at_key args (fname ?f)) = Inr (of_int v)" using lit by auto
    have sv: "sint (of_int v :: 64 word) = v" using in64 by (intro sint_of_int_64) auto
    show ?thesis
    proof (cases "v < - (2 ^ (int_bits ?K - 1)) \<or> 2 ^ (int_bits ?K - 1) - 1 < v")
      case True
      then have "\<not> checkIntOverflow (of_int v) ?K"
        using checkIntOverflow_range [OF kind, of "of_int v"] sv by auto
      with p have "bindField lib args ?f = Fail (ErrOverflowInt (of_int v) ?K)"
        using kind by (simp add: bindField_signed)
      from Parse_fails_at [OF tok k reach this, of prog] Some in64 True show ?thesis by auto
    next
      case inw: False
      then have ok: "checkIntOverflow (of_int v) ?K"
        using checkIntOverflow_range [OF kind, of "of_int v"] sv by auto
      with p have b: "bindField lib args ?f = SetInt (of_int v) ?f"
        using kind by (simp add: bindField_signed)
      have e: "\<exists>x. SetInt (of_int v) ?f = Next (StructField (fname ?f) True x) \<and>
                   Kind x = ?K \<and> signed_value x = v \<and>
                   (\<forall>fs' err. Parse lib (VPtr (Some (VStruct fs))) (prog # rest) =
                        Returns (VPtr (Some (VStruct fs'))) err \<longrightarrow>
                      fs' ! k = StructField (fname ?f) True x) \<and>
                   ((\<forall>j. k < j \<and> j < length fs \<longrightarrow>
                        (\<exists>g. bindField lib args (fs ! j) = Next g)) \<longrightarrow>
                      (\<exists>fs'. Parse lib (VPtr (Some (VStruct fs))) (prog # rest) =
                           Returns (VPtr (Some (VStruct fs'))) None \<and>
                         length fs' = length fs \<and>
                         fs' ! k = StructField (fname ?f) True x))" if ex: "exported ?f"
      proof -
        from SetInt_stores [OF ex kind, of "of_int v"] inw sv
        obtain x where x: "SetInt (of_int v) ?f = Next (StructField (fname ?f) True x)"
          "Kind x = ?K" "signed_value x = v" by auto
        have keep: "fs' ! k = StructField (fname ?f) True x"
          if "Parse lib (VPtr (Some (VStruct fs))) (prog # rest) = Returns (VPtr (Some (VStruct fs'))) err"
          for fs' err
          using Parse_keeps_bound [OF tok k reach _ that] b x(1) by simp
        have all: "\<exists>fs'. Parse lib (VPtr (Some (VStruct fs))) (prog # rest) =
                           Returns (VPtr (Some (VStruct fs'))) None \<and>
                         length fs' = length fs \<and>
                         fs' ! k = StructField (fname ?f) True x"
          if after: "\<forall>j. k < j \<and> j < length fs \<longrightarrow> (\<exists>g. bindField lib args (fs ! j) = Next g)"
        proof -
          have "\<exists>g. bindField lib args (fs ! j) = Next g" if "j < length fs" for j
          proof (cases "j = k")
            case True
            with b x(1) show ?thesis by simp
          next
            case False
            with that reach after show ?thesis by (cases "j < k") auto
          qed
          then have r: "Parse lib (VPtr (Some (VStruct fs))) (prog # rest) =
              Returns (VPtr (Some (VStruct (map (bound_field lib args) fs)))) None"
            by (intro Parse_binds_all [OF tok]) simp
          from keep [OF r] r show ?thesis by (intro exI [of _ "map (bound_field lib args) fs"]) simp
        qed
        from x keep all show ?thesis by blast
      qed
      have u: "Parse lib (VPtr (Some (VStruct fs))) (prog # rest) = Panics (UnexportedField ''SetInt'')"
        if nex: "\<not> exported ?f"
      proof -
        have "bindField lib args ?f = Panic (UnexportedField ''SetInt'')"
          using b nex by (simp add: SetInt_def)
        then show ?thesis by (rule Parse_panics_at [OF tok k reach])
      qed
      from b e u Some in64 inw show ?thesis by simp
    qed
  qed
qed

theorem signed_field_binding_witness:
  "Parse nofloats (VPtr (Some (VStruct [StructField ''n'' False (VInt8 0)]))) [''prog'', ''--n=300'']
     = Returns (VPtr (Some (VStruct [StructField ''n'' False (VInt8 0)])))
         (Some (ErrOverflowInt 300 KInt8)) \<and>
   (\<exists>x. SetInt (- 128) (StructField ''N'' True (VInt8 0)) = Next (StructField ''N'' True x) \<and>
        Kind x = KInt8 \<and> signed_value x = - 128 \<and>
        (\<exists>fs'. Parse nofloats (VPtr (Some (VStruct
      [StructField ''Name'' True (VString []), StructField ''N'' True (VInt8 0),
      StructField ''Debug'' True (VBool False)])))
             [''prog'', ''--Name=x'', ''--N=-128'']
           = Returns (VPtr (Some (VStruct fs'))) None \<and>
           length fs' = 3 \<and> fs' ! 1 = StructField ''N'' True x))"
proof -
  have tok: "mapArgSlice [''--n=300''] = Inr [''n'' \<mapsto> ''300'']"
    by (simp add: mapArgSlice_def mapArgSlice_loop.simps HasPrefix_def TrimPrefix_def
        Contains_def SplitN2_def)
  have lit: "int_literal ''300'' = Some 300"
    by (simp add: int_literal_def is_digit_def)
  from signed_field_binding [OF tok, of 0 "[StructField ''n'' False (VInt8 0)]" nofloats "''prog''"]
  obtain fs' where r: "Parse nofloats (VPtr (Some (VStruct [StructField ''n'' False (VInt8 0)])))
       [''prog'', ''--n=300''] = Returns (VPtr (Some (VStruct fs'))) (Some (ErrOverflowInt 300 KInt8))"
     "length fs' = 1" "fs' ! 0 = StructField ''n'' False (VInt8 0)"
    by (auto simp: at_key_def lit)
  from r(2,3) have "fs' = [StructField ''n'' False (VInt8 0)]"
    by (cases fs') auto
  with r(1) have one: "Parse nofloats (VPtr (Some (VStruct [StructField ''n'' False (VInt8 0)]))) [''prog'', ''--n=300'']
     = Returns (VPtr (Some (VStruct [StructField ''n'' False (VInt8 0)])))
         (Some (ErrOverflowInt 300 KInt8))" by simp
  let ?fs = "[StructField ''Name'' True (VString []), StructField ''N'' True (VInt8 0),
      StructField ''Debug'' True (VBool False)]"
  let ?m = "[''Name'' \<mapsto> ''x'', ''N'' \<mapsto> ''-128'']"
  have t2: "mapArgSlice [''--Name=x'', ''--N=-128''] = Inr ?m"
    by (simp add: mapArgSlice_def mapArgSlice_loop.simps HasPrefix_def TrimPrefix_def
        Contains_def SplitN2_def)
  have lit2: "int_literal (at_key ?m (fname (?fs ! 1))) = Some (- 128)"
    by (simp add: at_key_def int_literal_def is_digit_def)
  have k: "1 < length ?fs" by simp
  have kind: "Kind (fval (?fs ! 1)) = KInt \<or> Kind (fval (?fs ! 1)) = KInt8 \<or>
      Kind (fval (?fs ! 1)) = KInt16 \<or> Kind (fval (?fs ! 1)) = KInt32 \<or>
      Kind (fval (?fs ! 1)) = KInt64" by simp
  have reach: "\<forall>j<1. \<exists>g. bindField nofloats ?m (?fs ! j) = Next g"
    by (simp add: bindField_def SetString_def at_key_def)
  have after: "\<forall>j. 1 < j \<and> j < length ?fs \<longrightarrow> (\<exists>g. bindField nofloats ?m (?fs ! j) = Next g)"
  proof (intro allI impI)
    fix j assume "1 < j \<and> j < length ?fs"
    then have "j = 2" by simp
    then show "\<exists>g. bindField nofloats ?m (?fs ! j) = Next g"
      by (simp add: bindField_def)
  qed
  from signed_field_binding [OF t2 k kind reach, of "''prog''"] lit2
  have "exported (?fs ! 1) \<longrightarrow>
     (\<exists>x. SetInt (of_int (- 128)) (?fs ! 1) = Next (StructField (fname (?fs ! 1)) True x) \<and>
          Kind x = Kind (fval (?fs ! 1)) \<and> signed_value x = - 128 \<and>
          (\<forall>fs' err. Parse nofloats (VPtr (Some (VStruct ?fs))) (''prog'' # [''--Name=x'', ''--N=-128'']) =
               Returns (VPtr (Some (VStruct fs'))) err \<longrightarrow>
             fs' ! 1 = StructField (fname (?fs ! 1)) True x) \<and>
          ((\<forall>j. 1 < j \<and> j < length ?fs \<longrightarrow> (\<exists>g. bindField nofloats ?m (?fs ! j) = Next g)) \<longrightarrow>
             (\<exists>fs'. Parse nofloats (VPtr (Some (VStruct ?fs))) (''prog'' # [''--Name=x'', ''--N=-128'']) =
                  Returns (VPtr (Some (VStruct fs'))) None \<and>
                length fs' = length ?fs \<and>
                fs' ! 1 = StructField (fname (?fs ! 1)) True x)))"
    by simp
  with after obtain x fs' where
    "SetInt (of_int (- 128)) (?fs ! 1) = Next (StructField (fname (?fs ! 1)) True x)"
    "Kind x = Kind (fval (?fs ! 1))" "signed_value x = - 128"
    "Parse nofloats (VPtr (Some (VStruct ?fs))) (''prog'' # [''--Name=x'', ''--N=-128'']) =
       Returns (VPtr (Some (VStruct fs'))) None"
    "length fs' = length ?fs" "fs' ! 1 = StructField (fname (?fs ! 1)) True x"
    by auto
  then have two: "\<exists>x. SetInt (- 128) (StructField ''N'' True (VInt8 0)) = Next (StructField ''N'' True x) \<and>
        Kind x = KInt8 \<and> signed_value x = - 128 \<and>
        (\<exists>fs'. Parse nofloats (VPtr (Some (VStruct
      [StructField ''Name'' True (VString []), StructField ''N'' True (VInt8 0),
      StructField ''Debug'' True (VBool False)])))
             [''prog'', ''--Name=x'', ''--N=-128'']
           = Returns (VPtr (Some (VStruct fs'))) None \<and>
           length fs' = 3 \<and> fs' ! 1 = StructField ''N'' True x)"
    by (intro exI [of _ x] conjI exI [of _ fs']) simp_all
  from one two show ?thesis by (rule conjI)
qed

text \<open>
  The claim as stated fails at its own field \<open>n\<close>, which Go does not export: the value 5
  fits an \<open>int8\<close>, and the call panics in \<open>reflect\<close> instead of assigning it.
\<close>

theorem signed_field_binding_counterexample:
  "Parse nofloats (VPtr (Some (VStruct [StructField ''n'' False (VInt8 0)]))) [''prog'', ''--n=5'']
     = Panics (UnexportedField ''SetInt'')"
  by code_simp

text \<open>
  C7. A destination that is not a non-nil pointer to a struct (a value that is no
  pointer, a nil pointer, or a pointer to something that is no struct) makes \<open>Parse\<close>
  return one of its three destination errors and leaves the destination as it was. The
  result is the same for every argument vector, also for the empty one and for one on
  which the tokenizer would panic: the arguments are not read.
\<close>

theorem invalid_destination_rejected:
  assumes "\<forall>fs. s \<noteq> VPtr (Some (VStruct fs))"
  shows "(Kind s \<noteq> KPointer \<and>
            Parse lib s osArgs = Returns s (Some (ErrExpectedPointer (Kind s)))) \<or>
         (s = VPtr None \<and> Parse lib s osArgs = Returns s (Some ErrNilDestination)) \<or>
         (\<exists>v. s = VPtr (Some v) \<and> Kind v \<noteq> KStruct \<and>
            Parse lib s osArgs = Returns s (Some ErrNotStructPointer))"
proof (cases "Kind s = KPointer")
  case False
  then show ?thesis by (simp add: Parse_def)
next
  case True
  then obtain p where s: "s = VPtr p" using Kind_pointer by blast
  show ?thesis
  proof (cases p)
    case None
    with s show ?thesis by (simp add: Parse_def)
  next
    case (Some v)
    with s assms have "Kind v \<noteq> KStruct" using Kind_struct by blast
    with s Some show ?thesis by (simp add: Parse_def)
  qed
qed

theorem invalid_destination_rejected_witness:
  "Parse nofloats (VInt 3) [] = Returns (VInt 3) (Some (ErrExpectedPointer KInt)) \<and>
   Parse nofloats (VPtr None) [''prog'', ''--flag''] = Returns (VPtr None) (Some ErrNilDestination) \<and>
   Parse nofloats (VPtr (Some (VString ''x''))) [''prog'', ''--flag'']
     = Returns (VPtr (Some (VString ''x''))) (Some ErrNotStructPointer)"
  using invalid_destination_rejected [of "VInt 3" nofloats "[]"]
    invalid_destination_rejected [of "VPtr None" nofloats "[''prog'', ''--flag'']"]
    invalid_destination_rejected [of "VPtr (Some (VString ''x''))" nofloats "[''prog'', ''--flag'']"]
  by simp

text \<open>
  C8. Whenever \<open>Parse\<close>, called on a pointer to a struct, returns an error, there is a
  field index \<open>i\<close> at which the loop body failed with that error: the fields before \<open>i\<close>
  hold what the loop body bound them to, and field \<open>i\<close> and every field after it are as
  they were before the call.
\<close>

theorem error_leaves_later_fields:
  assumes "Parse lib (VPtr (Some (VStruct fs))) osArgs = Returns d (Some e)"
  shows "\<exists>fs' args i. d = VPtr (Some (VStruct fs')) \<and> mapArgSlice (drop 1 osArgs) = Inr args \<and>
           length fs' = length fs \<and> i < length fs \<and>
           bindField lib args (fs ! i) = Fail e \<and>
           (\<forall>j<i. bindField lib args (fs ! j) = Next (fs' ! j)) \<and>
           (\<forall>j. i \<le> j \<and> j < length fs \<longrightarrow> fs' ! j = fs ! j)"
proof -
  from Parse_returns_struct [OF assms] obtain fs' args where
    d: "d = VPtr (Some (VStruct fs'))" and tok: "mapArgSlice (drop 1 osArgs) = Inr args"
    and run: "Parse_loop lib args fs 0 = Inr (fs', Some e)" by blast
  from Parse_loop_frame [OF run] obtain i where
    "length fs' = length fs" "i < length fs" "bindField lib args (fs ! i) = Fail e"
    "\<forall>j. 0 \<le> j \<and> j < i \<longrightarrow> bindField lib args (fs ! j) = Next (fs' ! j)"
    "\<forall>j. i \<le> j \<and> j < length fs \<longrightarrow> fs' ! j = fs ! j"
    by auto
  with d tok show ?thesis by (intro exI [of _ fs'] exI [of _ args] exI [of _ i]) simp
qed

theorem error_leaves_later_fields_witness:
  "Parse nofloats
     (VPtr (Some (VStruct
       [StructField ''A'' True (VString ''old''), StructField ''N'' True (VInt8 7),
        StructField ''B'' True (VString ''keep'')])))
     [''prog'', ''--A=x'', ''--N=300'', ''--B=y'']
   = Returns
     (VPtr (Some (VStruct
       [StructField ''A'' True (VString ''x''), StructField ''N'' True (VInt8 7),
        StructField ''B'' True (VString ''keep'')])))
     (Some (ErrOverflowInt 300 KInt8)) \<and>
   (\<exists>fs' args i.
      VPtr (Some (VStruct
       [StructField ''A'' True (VString ''x''), StructField ''N'' True (VInt8 7),
        StructField ''B'' True (VString ''keep'')])) = VPtr (Some (VStruct fs')) \<and>
      mapArgSlice (drop 1 [''prog'', ''--A=x'', ''--N=300'', ''--B=y'']) = Inr args \<and>
      length fs' = length
       [StructField ''A'' True (VString ''old''), StructField ''N'' True (VInt8 7),
        StructField ''B'' True (VString ''keep'')] \<and>
      i < length
       [StructField ''A'' True (VString ''old''), StructField ''N'' True (VInt8 7),
        StructField ''B'' True (VString ''keep'')] \<and>
      bindField nofloats args
       ([StructField ''A'' True (VString ''old''), StructField ''N'' True (VInt8 7),
        StructField ''B'' True (VString ''keep'')] ! i) = Fail (ErrOverflowInt 300 KInt8) \<and>
      (\<forall>j<i. bindField nofloats args
       ([StructField ''A'' True (VString ''old''), StructField ''N'' True (VInt8 7),
        StructField ''B'' True (VString ''keep'')] ! j) = Next (fs' ! j)) \<and>
      (\<forall>j. i \<le> j \<and> j < length
       [StructField ''A'' True (VString ''old''), StructField ''N'' True (VInt8 7),
        StructField ''B'' True (VString ''keep'')] \<longrightarrow>
         fs' ! j =
       [StructField ''A'' True (VString ''old''), StructField ''N'' True (VInt8 7),
        StructField ''B'' True (VString ''keep'')] ! j))"
proof -
  have run: "Parse nofloats
     (VPtr (Some (VStruct
       [StructField ''A'' True (VString ''old''), StructField ''N'' True (VInt8 7),
        StructField ''B'' True (VString ''keep'')])))
     [''prog'', ''--A=x'', ''--N=300'', ''--B=y'']
   = Returns
     (VPtr (Some (VStruct
       [StructField ''A'' True (VString ''x''), StructField ''N'' True (VInt8 7),
        StructField ''B'' True (VString ''keep'')])))
     (Some (ErrOverflowInt 300 KInt8))"
    by code_simp
  show ?thesis by (rule conjI [OF run error_leaves_later_fields [OF run]])
qed

text \<open>
  C9, as the code has it. Take a struct whose fields are exported, of kind string, bool
  or integer, with distinct names that contain no \<open>=\<close> (as the exported fields of a Go
  struct have), and let \<open>Parse\<close> bind it successfully from some argument list. Writing
  every field of the result as a \<open>--name=value\<close> token and parsing these tokens again,
  into the original destination or into the bound record itself, succeeds and yields the
  bound record.
\<close>

theorem round_trip:
  assumes bound: "Parse lib (VPtr (Some (VStruct fs0))) (prog # toks) =
                    Returns (VPtr (Some (VStruct fs))) None"
    and kinds: "\<forall>f\<in>set fs0. stable_kind (Kind (fval f))"
    and exp: "\<forall>f\<in>set fs0. exported f"
    and dist: "distinct (map fname fs0)"
    and noeq: "\<forall>f\<in>set fs0. CHR ''='' \<notin> set (fname f)"
  shows "Parse lib (VPtr (Some (VStruct fs0))) (prog # serialize fs) =
           Returns (VPtr (Some (VStruct fs))) None \<and>
         Parse lib (VPtr (Some (VStruct fs))) (prog # serialize fs) =
           Returns (VPtr (Some (VStruct fs))) None"
proof -
  from Parse_returns_struct [OF bound] obtain args where
    run: "Parse_loop lib args fs0 0 = Inr (fs, None)" by auto
  from Parse_loop_frame [OF run] have len: "length fs = length fs0"
    and step: "\<And>j. j < length fs0 \<Longrightarrow> bindField lib args (fs0 ! j) = Next (fs ! j)"
    by simp_all
  have shape: "fname (fs ! j) = fname (fs0 ! j) \<and> exported (fs ! j) = exported (fs0 ! j) \<and>
      Kind (fval (fs ! j)) = Kind (fval (fs0 ! j))" if "j < length fs0" for j
    using bindField_shape [OF step [OF that]] .
  have names: "map fname fs = map fname fs0"
    using len shape by (intro nth_equalityI) simp_all
  have at: "stable_kind (Kind (fval (fs ! j))) \<and> exported (fs ! j) \<and>
      CHR ''='' \<notin> set (fname (fs ! j))" if "j < length fs0" for j
    using shape [OF that] kinds exp noeq that nth_mem [OF that] by metis
  have noeq': "\<forall>f\<in>set fs. CHR ''='' \<notin> set (fname f)"
    using at len by (auto simp: in_set_conv_nth)
  have dist': "distinct (map fname fs)" using names dist by simp
  from mapArgSlice_serialize [OF noeq' dist'] obtain m where
    tok: "mapArgSlice (serialize fs) = Inr m"
    and look: "\<forall>f\<in>set fs. m (fname f) = Some (format_value (fval f))" by blast
  have lk: "m (fname (fs ! j)) = Some (format_value (fval (fs ! j)))" if "j < length fs0" for j
    using look len that by simp
  have b0: "bindField lib m (fs0 ! j) = Next (fs ! j)" if "j < length fs0" for j
    using lk [OF that] at [OF that] shape [OF that]
    by (intro bindField_serialized) simp_all
  have b1: "bindField lib m (fs ! j) = Next (fs ! j)" if "j < length fs0" for j
    using lk [OF that] at [OF that]
    by (intro bindField_serialized) simp_all
  have "Parse_loop lib m fs0 0 = Inr (fs, None)"
    using len b0 by (intro Parse_loop_succeeds) simp_all
  moreover have "Parse_loop lib m fs 0 = Inr (fs, None)"
    using len b1 by (intro Parse_loop_succeeds) simp_all
  ultimately show ?thesis using tok by (simp add: Parse_struct)
qed

theorem round_trip_witness:
  "serialize
     [StructField ''Name'' True (VString ''alice''), StructField ''Debug'' True (VBool True),
      StructField ''Count'' True (VInt8 (- 7)), StructField ''Port'' True (VUint16 8080)] =
   [''--Name=alice'', ''--Debug=true'', ''--Count=-7'', ''--Port=8080''] \<and>
   Parse nofloats (VPtr (Some (VStruct
     [StructField ''Name'' True (VString []), StructField ''Debug'' True (VBool False),
      StructField ''Count'' True (VInt8 0), StructField ''Port'' True (VUint16 0)])))
     (''prog'' # serialize
     [StructField ''Name'' True (VString ''alice''), StructField ''Debug'' True (VBool True),
      StructField ''Count'' True (VInt8 (- 7)), StructField ''Port'' True (VUint16 8080)]) =
   Returns (VPtr (Some (VStruct
     [StructField ''Name'' True (VString ''alice''), StructField ''Debug'' True (VBool True),
      StructField ''Count'' True (VInt8 (- 7)), StructField ''Port'' True (VUint16 8080)]))) None \<and>
   Parse nofloats (VPtr (Some (VStruct
     [StructField ''Name'' True (VString ''alice''), StructField ''Debug'' True (VBool True),
      StructField ''Count'' True (VInt8 (- 7)), StructField ''Port'' True (VUint16 8080)])))
     (''prog'' # serialize
     [StructField ''Name'' True (VString ''alice''), StructField ''Debug'' True (VBool True),
      StructField ''Count'' True (VInt8 (- 7)), StructField ''Port'' True (VUint16 8080)]) =
   Returns (VPtr (Some (VStruct
     [StructField ''Name'' True (VString ''alice''), StructField ''Debug'' True (VBool True),
      StructField ''Count'' True (VInt8 (- 7)), StructField ''Port'' True (VUint16 8080)]))) None"
proof -
  have bound: "Parse nofloats (VPtr (Some (VStruct
     [StructField ''Name'' True (VString []), StructField ''Debug'' True (VBool False),
      StructField ''Count'' True (VInt8 0), StructField ''Port'' True (VUint16 0)])))
     (''prog'' # [''--Name'', ''alice'', ''--Debug=TRUE'', ''--Count=-7'', ''--Port'', ''8080'']) =
   Returns (VPtr (Some (VStruct
     [StructField ''Name'' True (VString ''alice''), StructField ''Debug'' True (VBool True),
      StructField ''Count'' True (VInt8 (- 7)), StructField ''Port'' True (VUint16 8080)]))) None"
    by code_simp
  have f1: "FormatUint 8080 = ''8080''"
    by (simp add: FormatUint.simps digit_def)
  have f2: "FormatInt (- 7) = ''-7''"
    by (simp add: FormatInt_def FormatUint.simps digit_def)
  have ser: "serialize
     [StructField ''Name'' True (VString ''alice''), StructField ''Debug'' True (VBool True),
      StructField ''Count'' True (VInt8 (- 7)), StructField ''Port'' True (VUint16 8080)] =
   [''--Name=alice'', ''--Debug=true'', ''--Count=-7'', ''--Port=8080'']"
    by (simp add: serialize_def token_def f1 f2)
  have kinds: "\<forall>f\<in>set
     [StructField ''Name'' True (VString []), StructField ''Debug'' True (VBool False),
      StructField ''Count'' True (VInt8 0), StructField ''Port'' True (VUint16 0)]. stable_kind (Kind (fval f))"
    by (simp add: stable_kind_def)
  have exp: "\<forall>f\<in>set
     [StructField ''Name'' True (VString []), StructField ''Debug'' True (VBool False),
      StructField ''Count'' True (VInt8 0), StructField ''Port'' True (VUint16 0)]. exported f"
    by simp
  have dist: "distinct (map fname
     [StructField ''Name'' True (VString []), StructField ''Debug'' True (VBool False),
      StructField ''Count'' True (VInt8 0), StructField ''Port'' True (VUint16 0)])"
    by simp
  have noeq: "\<forall>f\<in>set
     [StructField ''Name'' True (VString []), StructField ''Debug'' True (VBool False),
      StructField ''Count'' True (VInt8 0), StructField ''Port'' True (VUint16 0)]. CHR ''='' \<notin> set (fname f)"
    by simp
  show ?thesis by (rule conjI [OF ser round_trip [OF bound kinds exp dist noeq]])
qed

text \<open>
  Without the condition on the fields the round trip fails. A boolean field that Go does
  not export is left alone by a call without its flag, so that call succeeds; its token
  \<open>--b=false\<close> then makes the second call store into the field, and \<open>reflect\<close> panics.
\<close>

theorem round_trip_counterexample:
  "Parse nofloats (VPtr (Some (VStruct [StructField ''b'' False (VBool False)]))) [''prog'']
     = Returns (VPtr (Some (VStruct [StructField ''b'' False (VBool False)]))) None \<and>
   serialize [StructField ''b'' False (VBool False)] = [''--b=false''] \<and>
   Parse nofloats (VPtr (Some (VStruct [StructField ''b'' False (VBool False)])))
     (''prog'' # serialize [StructField ''b'' False (VBool False)])
     = Panics (UnexportedField ''SetBool'')"
proof -
  have ser: "serialize [StructField ''b'' False (VBool False)] = [''--b=false'']"
    by (simp add: serialize_def token_def)
  have a: "Parse nofloats (VPtr (Some (VStruct [StructField ''b'' False (VBool False)]))) [''prog'']
     = Returns (VPtr (Some (VStruct [StructField ''b'' False (VBool False)]))) None"
    by code_simp
  have b: "Parse nofloats (VPtr (Some (VStruct [StructField ''b'' False (VBool False)])))
     [''prog'', ''--b=false''] = Panics (UnexportedField ''SetBool'')"
    by code_simp
  from a ser b show ?thesis by simp
qed

text \<open>
  C10, as the code has it. For the kinds \<open>Int\<close>, \<open>Int64\<close>, \<open>Uint\<close> and \<open>Uint64\<close> the
  width check cannot fail: \<open>checkIntOverflow\<close> is true of every 64-bit signed value at
  \<open>Int\<close> and \<open>Int64\<close>, \<open>checkUIntOverflow\<close> of every 64-bit unsigned value at \<open>Uint\<close>
  and \<open>Uint64\<close>. So for a field of one of these kinds the loop body never returns an
  overflow error, and whenever the 64-bit parse of the raw value succeeds it goes on to
  the setter with the parsed value. On an exported field the value is then assigned: the
  loop body leaves the field holding it, and when every other field of the struct binds,
  \<open>Parse\<close> returns without error and the field holds the parsed value. On a field that
  is not exported the setter panics, and so does \<open>Parse\<close> once the loop reaches the
  field: nothing is assigned.
\<close>

theorem wide_kinds_never_overflow:
  "checkIntOverflow n KInt \<and> checkIntOverflow n KInt64 \<and>
   checkUIntOverflow u KUint \<and> checkUIntOverflow u KUint64 \<and>
   (Kind (fval f) = KInt \<or> Kind (fval f) = KInt64 \<longrightarrow>
      bindField lib args f \<noteq> Fail (ErrOverflowInt m k) \<and>
      (ParseInt (at_key args (fname f)) = Inr n \<longrightarrow>
         bindField lib args f = SetInt n f \<and>
         (exported f \<longrightarrow>
            (\<exists>x. bindField lib args f = Next (StructField (fname f) True x) \<and>
                 Kind x = Kind (fval f) \<and> word64_value x = n \<and>
                 (mapArgSlice rest = Inr args \<and> i < length fs \<and> fs ! i = f \<and>
                  (\<forall>j<length fs. j \<noteq> i \<longrightarrow> (\<exists>g. bindField lib args (fs ! j) = Next g)) \<longrightarrow>
                    (\<exists>fs'. Parse lib (VPtr (Some (VStruct fs))) (prog # rest) =
                         Returns (VPtr (Some (VStruct fs'))) None \<and>
                       length fs' = length fs \<and>
                       fs' ! i = StructField (fname f) True x)))) \<and>
         (\<not> exported f \<longrightarrow>
            bindField lib args f = Panic (UnexportedField ''SetInt'') \<and>
            (mapArgSlice rest = Inr args \<and> i < length fs \<and> fs ! i = f \<and>
             (\<forall>j<i. \<exists>g. bindField lib args (fs ! j) = Next g) \<longrightarrow>
               Parse lib (VPtr (Some (VStruct fs))) (prog # rest) =
                 Panics (UnexportedField ''SetInt''))))) \<and>
   (Kind (fval f) = KUint \<or> Kind (fval f) = KUint64 \<longrightarrow>
      bindField lib args f \<noteq> Fail (ErrOverflowUint m k) \<and>
      (ParseUint (at_key args (fname f)) = Inr u \<longrightarrow>
         bindField lib args f = SetUint u f \<and>
         (exported f \<longrightarrow>
            (\<exists>x. bindField lib args f = Next (StructField (fname f) True x) \<and>
                 Kind x = Kind (fval f) \<and> word64_value x = u \<and>
                 (mapArgSlice rest = Inr args \<and> i < length fs \<and> fs ! i = f \<and>
                  (\<forall>j<length fs. j \<noteq> i \<longrightarrow> (\<exists>g. bindField lib args (fs ! j) = Next g)) \<longrightarrow>
                    (\<exists>fs'. Parse lib (VPtr (Some (VStruct fs))) (prog # rest) =
                         Returns (VPtr (Some (VStruct fs'))) None \<and>
                       length fs' = length fs \<and>
                       fs' ! i = StructField (fname f) True x)))) \<and>
         (\<not> exported f \<longrightarrow>
            bindField lib args f = Panic (UnexportedField ''SetUint'') \<and>
            (mapArgSlice rest = Inr args \<and> i < length fs \<and> fs ! i = f \<and>
             (\<forall>j<i. \<exists>g. bindField lib args (fs ! j) = Next g) \<longrightarrow>
               Parse lib (VPtr (Some (VStruct fs))) (prog # rest) =
                 Panics (UnexportedField ''SetUint'')))))"
proof -
  have si: "bindField lib args f \<noteq> Fail (ErrOverflowInt m k)"
    if k: "Kind (fval f) = KInt \<or> Kind (fval f) = KInt64"
  proof (cases "ParseInt (at_key args (fname f))")
    case (Inl e)
    with k ParseInt_error [OF Inl] show ?thesis by (auto simp: bindField_signed)
  next
    case (Inr x)
    with k checkIntOverflow_wide [of x] show ?thesis
      by (auto simp: bindField_signed SetInt_not_Fail)
  qed
  have sa: "bindField lib args f = SetInt n f"
    if k: "Kind (fval f) = KInt \<or> Kind (fval f) = KInt64"
      and "ParseInt (at_key args (fname f)) = Inr n"
    using that checkIntOverflow_wide [of n] by (auto simp: bindField_signed)
  have ui: "bindField lib args f \<noteq> Fail (ErrOverflowUint m k)"
    if k: "Kind (fval f) = KUint \<or> Kind (fval f) = KUint64"
  proof (cases "ParseUint (at_key args (fname f))")
    case (Inl e)
    with k ParseUint_error [OF Inl] show ?thesis
      by (auto simp: bindField_unsigned split: if_splits)
  next
    case (Inr x)
    with k checkUIntOverflow_wide [of x] show ?thesis
      by (auto simp: bindField_unsigned SetUint_not_Fail split: if_splits)
  qed
  have ua: "bindField lib args f = SetUint u f"
    if k: "Kind (fval f) = KUint \<or> Kind (fval f) = KUint64"
      and p: "ParseUint (at_key args (fname f)) = Inr u"
    using k p checkUIntOverflow_wide [of u] ParseUint_no_minus [OF p]
    by (auto simp: bindField_unsigned)
  have sx: "exported f \<longrightarrow>
            (\<exists>x. bindField lib args f = Next (StructField (fname f) True x) \<and>
                 Kind x = Kind (fval f) \<and> word64_value x = n \<and>
                 (mapArgSlice rest = Inr args \<and> i < length fs \<and> fs ! i = f \<and>
                  (\<forall>j<length fs. j \<noteq> i \<longrightarrow> (\<exists>g. bindField lib args (fs ! j) = Next g)) \<longrightarrow>
                    (\<exists>fs'. Parse lib (VPtr (Some (VStruct fs))) (prog # rest) =
                         Returns (VPtr (Some (VStruct fs'))) None \<and>
                       length fs' = length fs \<and>
                       fs' ! i = StructField (fname f) True x)))"
    if k: "Kind (fval f) = KInt \<or> Kind (fval f) = KInt64" and p: "ParseInt (at_key args (fname f)) = Inr n"
  proof
    assume ex: "exported f"
    from SetInt_wide [OF ex k, of n] obtain x where
      x: "SetInt n f = Next (StructField (fname f) True x)"
        "Kind x = Kind (fval f)" "word64_value x = n" by blast
    have b: "bindField lib args f = Next (StructField (fname f) True x)"
      using sa [OF k p] x(1) by simp
    have "\<exists>fs'. Parse lib (VPtr (Some (VStruct fs))) (prog # rest) =
             Returns (VPtr (Some (VStruct fs'))) None \<and>
           length fs' = length fs \<and> fs' ! i = StructField (fname f) True x"
      if h: "mapArgSlice rest = Inr args \<and> i < length fs \<and> fs ! i = f \<and>
          (\<forall>j<length fs. j \<noteq> i \<longrightarrow> (\<exists>g. bindField lib args (fs ! j) = Next g))"
    proof (rule Parse_stores)
      show "mapArgSlice rest = Inr args" using h by simp
      show "i < length fs" using h by simp
      show "\<forall>j<i. \<exists>g. bindField lib args (fs ! j) = Next g" using h by auto
      show "\<forall>j. i < j \<and> j < length fs \<longrightarrow> (\<exists>g. bindField lib args (fs ! j) = Next g)"
        using h by auto
      show "bindField lib args (fs ! i) = Next (StructField (fname f) True x)" using h b by simp
    qed
    with b x(2,3) show "\<exists>x. bindField lib args f = Next (StructField (fname f) True x) \<and>
                 Kind x = Kind (fval f) \<and> word64_value x = n \<and>
                 (mapArgSlice rest = Inr args \<and> i < length fs \<and> fs ! i = f \<and>
                  (\<forall>j<length fs. j \<noteq> i \<longrightarrow> (\<exists>g. bindField lib args (fs ! j) = Next g)) \<longrightarrow>
                    (\<exists>fs'. Parse lib (VPtr (Some (VStruct fs))) (prog # rest) =
                         Returns (VPtr (Some (VStruct fs'))) None \<and>
                       length fs' = length fs \<and>
                       fs' ! i = StructField (fname f) True x))"
      by (intro exI [of _ x]) simp
  qed
  have sp: "\<not> exported f \<longrightarrow>
            bindField lib args f = Panic (UnexportedField ''SetInt'') \<and>
            (mapArgSlice rest = Inr args \<and> i < length fs \<and> fs ! i = f \<and>
             (\<forall>j<i. \<exists>g. bindField lib args (fs ! j) = Next g) \<longrightarrow>
               Parse lib (VPtr (Some (VStruct fs))) (prog # rest) =
                 Panics (UnexportedField ''SetInt''))"
    if k: "Kind (fval f) = KInt \<or> Kind (fval f) = KInt64" and p: "ParseInt (at_key args (fname f)) = Inr n"
  proof
    assume nex: "\<not> exported f"
    have b: "bindField lib args f = Panic (UnexportedField ''SetInt'')"
      using sa [OF k p] nex by (simp add: SetInt_def)
    have "Parse lib (VPtr (Some (VStruct fs))) (prog # rest) = Panics (UnexportedField ''SetInt'')"
      if h: "mapArgSlice rest = Inr args \<and> i < length fs \<and> fs ! i = f \<and>
             (\<forall>j<i. \<exists>g. bindField lib args (fs ! j) = Next g)"
    proof (rule Parse_panics_at)
      show "mapArgSlice rest = Inr args" using h by simp
      show "i < length fs" using h by simp
      show "\<forall>j<i. \<exists>g. bindField lib args (fs ! j) = Next g" using h by simp
      show "bindField lib args (fs ! i) = Panic (UnexportedField ''SetInt'')" using h b by simp
    qed
    with b show "bindField lib args f = Panic (UnexportedField ''SetInt'') \<and>
            (mapArgSlice rest = Inr args \<and> i < length fs \<and> fs ! i = f \<and>
             (\<forall>j<i. \<exists>g. bindField lib args (fs ! j) = Next g) \<longrightarrow>
               Parse lib (VPtr (Some (VStruct fs))) (prog # rest) =
                 Panics (UnexportedField ''SetInt''))"
      by simp
  qed
  have ux: "exported f \<longrightarrow>
            (\<exists>x. bindField lib args f = Next (StructField (fname f) True x) \<and>
                 Kind x = Kind (fval f) \<and> word64_value x = u \<and>
                 (mapArgSlice rest = Inr args \<and> i < length fs \<and> fs ! i = f \<and>
                  (\<forall>j<length fs. j \<noteq> i \<longrightarrow> (\<exists>g. bindField lib args (fs ! j) = Next g)) \<longrightarrow>
                    (\<exists>fs'. Parse lib (VPtr (Some (VStruct fs))) (prog # rest) =
                         Returns (VPtr (Some (VStruct fs'))) None \<and>
                       length fs' = length fs \<and>
                       fs' ! i = StructField (fname f) True x)))"
    if k: "Kind (fval f) = KUint \<or> Kind (fval f) = KUint64" and p: "ParseUint (at_key args (fname f)) = Inr u"
  proof
    assume ex: "exported f"
    from SetUint_wide [OF ex k, of u] obtain x where
      x: "SetUint u f = Next (StructField (fname f) True x)"
        "Kind x = Kind (fval f)" "word64_value x = u" by blast
    have b: "bindField lib args f = Next (StructField (fname f) True x)"
      using ua [OF k p] x(1) by simp
    have "\<exists>fs'. Parse lib (VPtr (Some (VStruct fs))) (prog # rest) =
             Returns (VPtr (Some (VStruct fs'))) None \<and>
           length fs' = length fs \<and> fs' ! i = StructField (fname f) True x"
      if h: "mapArgSlice rest = Inr args \<and> i < length fs \<and> fs ! i = f \<and>
          (\<forall>j<length fs. j \<noteq> i \<longrightarrow> (\<exists>g. bindField lib args (fs ! j) = Next g))"
    proof (rule Parse_stores)
      show "mapArgSlice rest = Inr args" using h by simp
      show "i < length fs" using h by simp
      show "\<forall>j<i. \<exists>g. bindField lib args (fs ! j) = Next g" using h by auto
      show "\<forall>j. i < j \<and> j < length fs \<longrightarrow> (\<exists>g. bindField lib args (fs ! j) = Next g)"
        using h by auto
      show "bindField lib args (fs ! i) = Next (StructField (fname f) True x)" using h b by simp
    qed
    with b x(2,3) show "\<exists>x. bindField lib args f = Next (StructField (fname f) True x) \<and>
                 Kind x = Kind (fval f) \<and> word64_value x = u \<and>
                 (mapArgSlice rest = Inr args \<and> i < length fs \<and> fs ! i = f \<and>
                  (\<forall>j<length fs. j \<noteq> i \<longrightarrow> (\<exists>g. bindField lib args (fs ! j) = Next g)) \<longrightarrow>
                    (\<exists>fs'. Parse lib (VPtr (Some (VStruct fs))) (prog # rest) =
                         Returns (VPtr (Some (VStruct fs'))) None \<and>
                       length fs' = length fs \<and>
                       fs' ! i = StructField (fname f) True x))"
      by (intro exI [of _ x]) simp
  qed
  have up: "\<not> exported f \<longrightarrow>
            bindField lib args f = Panic (UnexportedField ''SetUint'') \<and>
            (mapArgSlice rest = Inr args \<and> i < length fs \<and> fs ! i = f \<and>
             (\<forall>j<i. \<exists>g. bindField lib args (fs ! j) = Next g) \<longrightarrow>
               Parse lib (VPtr (Some (VStruct fs))) (prog # rest) =
                 Panics (UnexportedField ''SetUint''))"
    if k: "Kind (fval f) = KUint \<or> Kind (fval f) = KUint64" and p: "ParseUint (at_key args (fname f)) = Inr u"
  proof
    assume nex: "\<not> exported f"
    have b: "bindField lib args f = Panic (UnexportedField ''SetUint'')"
      using ua [OF k p] nex by (simp add: SetUint_def)
    have "Parse lib (VPtr (Some (VStruct fs))) (prog # rest) = Panics (UnexportedField ''SetUint'')"
      if h: "mapArgSlice rest = Inr args \<and> i < length fs \<and> fs ! i = f \<and>
             (\<forall>j<i. \<exists>g. bindField lib args (fs ! j) = Next g)"
    proof (rule Parse_panics_at)
      show "mapArgSlice rest = Inr args" using h by simp
      show "i < length fs" using h by simp
      show "\<forall>j<i. \<exists>g. bindField lib args (fs ! j) = Next g" using h by simp
      show "bindField lib args (fs ! i) = Panic (UnexportedField ''SetUint'')" using h b by simp
    qed
    with b show "bindField lib args f = Panic (UnexportedField ''SetUint'') \<and>
            (mapArgSlice rest = Inr args \<and> i < length fs \<and> fs ! i = f \<and>
             (\<forall>j<i. \<exists>g. bindField lib args (fs ! j) = Next g) \<longrightarrow>
               Parse lib (VPtr (Some (VStruct fs))) (prog # rest) =
                 Panics (UnexportedField ''SetUint''))"
      by simp
  qed
  have S: "(Kind (fval f) = KInt \<or> Kind (fval f) = KInt64 \<longrightarrow>
      bindField lib args f \<noteq> Fail (ErrOverflowInt m k) \<and>
      (ParseInt (at_key args (fname f)) = Inr n \<longrightarrow>
         bindField lib args f = SetInt n f \<and>
         (exported f \<longrightarrow>
            (\<exists>x. bindField lib args f = Next (StructField (fname f) True x) \<and>
                 Kind x = Kind (fval f) \<and> word64_value x = n \<and>
                 (mapArgSlice rest = Inr args \<and> i < length fs \<and> fs ! i = f \<and>
                  (\<forall>j<length fs. j \<noteq> i \<longrightarrow> (\<exists>g. bindField lib args (fs ! j) = Next g)) \<longrightarrow>
                    (\<exists>fs'. Parse lib (VPtr (Some (VStruct fs))) (prog # rest) =
                         Returns (VPtr (Some (VStruct fs'))) None \<and>
                       length fs' = length fs \<and>
                       fs' ! i = StructField (fname f) True x)))) \<and>
         (\<not> exported f \<longrightarrow>
            bindField lib args f = Panic (UnexportedField ''SetInt'') \<and>
            (mapArgSlice rest = Inr args \<and> i < length fs \<and> fs ! i = f \<and>
             (\<forall>j<i. \<exists>g. bindField lib args (fs ! j) = Next g) \<longrightarrow>
               Parse lib (VPtr (Some (VStruct fs))) (prog # rest) =
                 Panics (UnexportedField ''SetInt'')))))"
    using si sa sx sp by (intro impI conjI) blast+
  have U: "(Kind (fval f) = KUint \<or> Kind (fval f) = KUint64 \<longrightarrow>
      bindField lib args f \<noteq> Fail (ErrOverflowUint m k) \<and>
      (ParseUint (at_key args (fname f)) = Inr u \<longrightarrow>
         bindField lib args f = SetUint u f \<and>
         (exported f \<longrightarrow>
            (\<exists>x. bindField lib args f = Next (StructField (fname f) True x) \<and>
                 Kind x = Kind (fval f) \<and> word64_value x = u \<and>
                 (mapArgSlice rest = Inr args \<and> i < length fs \<and> fs ! i = f \<and>
                  (\<forall>j<length fs. j \<noteq> i \<longrightarrow> (\<exists>g. bindField lib args (fs ! j) = Next g)) \<longrightarrow>
                    (\<exists>fs'. Parse lib (VPtr (Some (VStruct fs))) (prog # rest) =
                         Returns (VPtr (Some (VStruct fs'))) None \<and>
                       length fs' = length fs \<and>
                       fs' ! i = StructField (fname f) True x)))) \<and>
         (\<not> exported f \<longrightarrow>
            bindField lib args f = Panic (UnexportedField ''SetUint'') \<and>
            (mapArgSlice rest = Inr args \<and> i < length fs \<and> fs ! i = f \<and>
             (\<forall>j<i. \<exists>g. bindField lib args (fs ! j) = Next g) \<longrightarrow>
               Parse lib (VPtr (Some (VStruct fs))) (prog # rest) =
                 Panics (UnexportedField ''SetUint'')))))"
    using ui ua ux up by (intro impI conjI) blast+
  have a: "checkIntOverflow n KInt" and b: "checkIntOverflow n KInt64"
    using checkIntOverflow_wide [of n] by simp_all
  have c: "checkUIntOverflow u KUint" and d: "checkUIntOverflow u KUint64"
    using checkUIntOverflow_wide [of u] by simp_all
  from a b c d S U show ?thesis by (intro conjI) assumption+
qed


theorem wide_kinds_never_overflow_witness:
  "(\<exists>x fs'. word64_value x = - 9223372036854775808 \<and>
      Parse nofloats (VPtr (Some (VStruct
      [StructField ''Name'' True (VString []), StructField ''N'' True (VInt 0),
      StructField ''Debug'' True (VBool False)])))
        [''prog'', ''--Name=x'', ''--N=-9223372036854775808'']
      = Returns (VPtr (Some (VStruct fs'))) None \<and>
      length fs' = 3 \<and> fs' ! 1 = StructField ''N'' True x) \<and>
   (\<exists>x fs'. word64_value x = 18446744073709551615 \<and>
      Parse nofloats (VPtr (Some (VStruct
      [StructField ''Name'' True (VString []), StructField ''U'' True (VUint64 0),
      StructField ''Debug'' True (VBool False)])))
        [''prog'', ''--Name=x'', ''--U=18446744073709551615'']
      = Returns (VPtr (Some (VStruct fs'))) None \<and>
      length fs' = 3 \<and> fs' ! 1 = StructField ''U'' True x)"
proof -
  have pi: "ParseInt ''-9223372036854775808'' = Inr (- 9223372036854775808)"
    by code_simp
  have pu: "ParseUint ''18446744073709551615'' = Inr 18446744073709551615"
    by code_simp
  have one: "\<exists>x fs'. word64_value x = - 9223372036854775808 \<and>
      Parse nofloats (VPtr (Some (VStruct
      [StructField ''Name'' True (VString []), StructField ''N'' True (VInt 0),
      StructField ''Debug'' True (VBool False)])))
        [''prog'', ''--Name=x'', ''--N=-9223372036854775808'']
      = Returns (VPtr (Some (VStruct fs'))) None \<and>
      length fs' = 3 \<and> fs' ! 1 = StructField ''N'' True x"
  proof -
    let ?fs = "[StructField ''Name'' True (VString []), StructField ''N'' True (VInt 0),
      StructField ''Debug'' True (VBool False)]"
    let ?m = "[''Name'' \<mapsto> ''x'', ''N'' \<mapsto> ''-9223372036854775808'']"
    have tok: "mapArgSlice [''--Name=x'', ''--N=-9223372036854775808''] = Inr ?m"
      by (simp add: mapArgSlice_def mapArgSlice_loop.simps HasPrefix_def TrimPrefix_def
          Contains_def SplitN2_def)
    have p: "ParseInt (at_key ?m (fname (?fs ! 1))) = Inr (- 9223372036854775808)"
      using pi by (simp add: at_key_def)
    have kindf: "Kind (fval (?fs ! 1)) = KInt \<or> Kind (fval (?fs ! 1)) = KInt64" by simp
    have others: "\<forall>j<length ?fs. j \<noteq> 1 \<longrightarrow> (\<exists>g. bindField nofloats ?m (?fs ! j) = Next g)"
    proof (intro allI impI)
      fix j assume "j < length ?fs" and "j \<noteq> 1"
      then have "j = 0 \<or> j = 2" by auto
      then show "\<exists>g. bindField nofloats ?m (?fs ! j) = Next g"
        by (auto simp: bindField_def SetString_def at_key_def)
    qed
    have ex: "exported (?fs ! 1)" by simp
    have h: "mapArgSlice [''--Name=x'', ''--N=-9223372036854775808''] = Inr ?m \<and> 1 < length ?fs \<and> ?fs ! 1 = ?fs ! 1 \<and>
        (\<forall>j<length ?fs. j \<noteq> 1 \<longrightarrow> (\<exists>g. bindField nofloats ?m (?fs ! j) = Next g))"
      using tok others by simp
    from wide_kinds_never_overflow [of "- 9223372036854775808" "- 9223372036854775808" "?fs ! 1" nofloats ?m _ _
        "[''--Name=x'', ''--N=-9223372036854775808'']" 1 ?fs "''prog''"] kindf p ex h
    obtain x fs' where "word64_value x = - 9223372036854775808"
      "Parse nofloats (VPtr (Some (VStruct ?fs))) (''prog'' # [''--Name=x'', ''--N=-9223372036854775808'']) =
         Returns (VPtr (Some (VStruct fs'))) None"
      "length fs' = length ?fs" "fs' ! 1 = StructField (fname (?fs ! 1)) True x"
      by blast
    then show ?thesis by (intro exI [of _ x] exI [of _ fs']) simp
  qed
  have two: "\<exists>x fs'. word64_value x = 18446744073709551615 \<and>
      Parse nofloats (VPtr (Some (VStruct
      [StructField ''Name'' True (VString []), StructField ''U'' True (VUint64 0),
      StructField ''Debug'' True (VBool False)])))
        [''prog'', ''--Name=x'', ''--U=18446744073709551615'']
      = Returns (VPtr (Some (VStruct fs'))) None \<and>
      length fs' = 3 \<and> fs' ! 1 = StructField ''U'' True x"
  proof -
    let ?fs = "[StructField ''Name'' True (VString []), StructField ''U'' True (VUint64 0),
      StructField ''Debug'' True (VBool False)]"
    let ?m = "[''Name'' \<mapsto> ''x'', ''U'' \<mapsto> ''18446744073709551615'']"
    have tok: "mapArgSlice [''--Name=x'', ''--U=18446744073709551615''] = Inr ?m"
      by (simp add: mapArgSlice_def mapArgSlice_loop.simps HasPrefix_def TrimPrefix_def
          Contains_def SplitN2_def)
    have p: "ParseUint (at_key ?m (fname (?fs ! 1))) = Inr (18446744073709551615)"
      using pu by (simp add: at_key_def)
    have kindf: "Kind (fval (?fs ! 1)) = KUint \<or> Kind (fval (?fs ! 1)) = KUint64" by simp
    have others: "\<forall>j<length ?fs. j \<noteq> 1 \<longrightarrow> (\<exists>g. bindField nofloats ?m (?fs ! j) = Next g)"
    proof (intro allI impI)
      fix j assume "j < length ?fs" and "j \<noteq> 1"
      then have "j = 0 \<or> j = 2" by auto
      then show "\<exists>g. bindField nofloats ?m (?fs ! j) = Next g"
        by (auto simp: bindField_def SetString_def at_key_def)
    qed
    have ex: "exported (?fs ! 1)" by simp
    have h: "mapArgSlice [''--Name=x'', ''--U=18446744073709551615''] = Inr ?m \<and> 1 < length ?fs \<and> ?fs ! 1 = ?fs ! 1 \<and>
        (\<forall>j<length ?fs. j \<noteq> 1 \<longrightarrow> (\<exists>g. bindField nofloats ?m (?fs ! j) = Next g))"
      using tok others by simp
    from wide_kinds_never_overflow [of "18446744073709551615" "18446744073709551615" "?fs ! 1" nofloats ?m _ _
        "[''--Name=x'', ''--U=18446744073709551615'']" 1 ?fs "''prog''"] kindf p ex h
    obtain x fs' where "word64_value x = 18446744073709551615"
      "Parse nofloats (VPtr (Some (VStruct ?fs))) (''prog'' # [''--Name=x'', ''--U=18446744073709551615'']) =
         Returns (VPtr (Some (VStruct fs'))) None"
      "length fs' = length ?fs" "fs' ! 1 = StructField (fname (?fs ! 1)) True x"
      by blast
    then show ?thesis by (intro exI [of _ x] exI [of _ fs']) simp
  qed
  from one two show ?thesis by (rule conjI)
qed

text \<open>
  The claim as stated fails on fields that Go does not export: the value 5 parses and
  passes the check, and the call panics in \<open>reflect\<close> instead of assigning it.
\<close>

theorem wide_kinds_never_overflow_counterexample:
  "Parse nofloats (VPtr (Some (VStruct [StructField ''n'' False (VInt 0)]))) [''prog'', ''--n=5'']
     = Panics (UnexportedField ''SetInt'') \<and>
   Parse nofloats (VPtr (Some (VStruct [StructField ''u'' False (VUint64 0)]))) [''prog'', ''--u=5'']
     = Panics (UnexportedField ''SetUint'')"
  by code_simp

end
